theory Spec2Isabelle
  imports Complex_Main "HOL-Library.AList"
begin

section \<open>The server engine of plinko (src/server/serverEngine.js)\<close>

text \<open>
  A shallow embedding of the class \<open>ServerEngine\<close>. The fields of \<open>this\<close> form a
  record that every method takes and returns. JavaScript numbers that hold integers
  (identifiers, scores, the frame counter) are \<open>int\<close>; times and coordinates are
  \<open>real\<close>. The physics engine (matter-js), the wall clock and the event loop are the
  environment: what they deliver (collision pairs, new positions, clock readings,
  timer firings) is an argument of the model.
\<close>

subsection \<open>JavaScript values\<close>

text \<open>A score slot holds a number; \<open>undefined + 1\<close> is \<open>NaN\<close>, and so is \<open>NaN + 1\<close>.\<close>

datatype jsnum = Num int | NaN

text \<open>The value of an \<open>ownerId\<close> property: \<open>null\<close>, a number, or \<open>undefined\<close> (no
  such property).\<close>

datatype owner = Null | Undefined | Owner int

text \<open>\<open>if (v)\<close>: \<open>null\<close>, \<open>undefined\<close> and the number \<open>0\<close> are falsy.\<close>

fun truthy :: "owner \<Rightarrow> bool" where
  "truthy Null = False"
| "truthy Undefined = False"
| "truthy (Owner n) = (n \<noteq> 0)"

text \<open>\<open>score >= targetScore\<close>: every comparison with \<open>NaN\<close> is false.\<close>

fun js_ge :: "jsnum \<Rightarrow> int \<Rightarrow> bool" where
  "js_ge (Num n) t = (t \<le> n)"
| "js_ge NaN t = False"

text \<open>\<open>obj[k] += d\<close> reads \<open>obj[k]\<close> (\<open>None\<close> is \<open>undefined\<close>) and adds.\<close>

fun js_plus :: "jsnum option \<Rightarrow> int \<Rightarrow> jsnum" where
  "js_plus (Some (Num n)) d = Num (n + d)"
| "js_plus (Some NaN) d = NaN"
| "js_plus None d = NaN"

text \<open>\<open>String(n)\<close> for an integer: its decimal digits, with a minus sign when negative.\<close>

definition digit_char :: "nat \<Rightarrow> char" where
  "digit_char n = ''0123456789'' ! (n mod 10)"

fun digits :: "nat \<Rightarrow> string" where
  "digits n = (if n < 10 then [digit_char n] else digits (n div 10) @ [digit_char (n mod 10)])"

declare digits.simps [simp del]

definition String_of_int :: "int \<Rightarrow> string" where
  "String_of_int i = (if i < 0 then CHR ''-'' # digits (nat (- i)) else digits (nat i))"

fun String_of_owner :: "owner \<Rightarrow> string" where
  "String_of_owner Null = ''null''"
| "String_of_owner Undefined = ''undefined''"
| "String_of_owner (Owner n) = String_of_int n"

fun String_of_id :: "int option \<Rightarrow> string" where
  "String_of_id None = ''undefined''"
| "String_of_id (Some n) = String_of_int n"

subsection \<open>Entities and bodies\<close>

text \<open>
  Modelled from the spec: the classes \<open>Chip\<close>, \<open>Peg\<close>, the walls, \<open>Input\<close> and
  \<open>InputBuffer\<close> are imported by serverEngine.js and are not part of the source. A chip
  is an object with the fields \<open>id\<close> and \<open>ownerId\<close> of its input and a physics body;
  \<open>chip_ref\<close> is the identity of the object (two chips built from equal inputs are
  two objects). A peg has a stable \<open>id\<close> and an \<open>ownerId\<close> that starts \<open>null\<close>. The
  input buffer is a FIFO queue of inputs \<open>{id, ownerId, x, y}\<close>.
\<close>

record input =
  in_id :: int
  in_ownerId :: int
  in_x :: real
  in_y :: real

record chip =
  chip_ref :: nat
  chip_id :: int
  chip_ownerId :: int

record peg =
  peg_id :: int
  peg_ownerId :: owner
  peg_x :: real
  peg_y :: real

record pose =
  pos_x :: real
  pos_y :: real
  angle :: real

datatype fixture = LeftWall | RightWall | BucketWall int | Triangle nat

text \<open>
  Modelled from the spec: a body of the physics engine carries a string label and a
  back-reference \<open>parentObject\<close> to its entity, whose \<open>body\<close> it is. A peg body refers
  to the peg stored at that index of \<open>this.pegs\<close>; the ground is the horizontal wall;
  every other fixture is a wall.
\<close>

datatype body = PegBody nat | ChipBody chip | GroundBody | WallBody fixture

fun label :: "body \<Rightarrow> string" where
  "label (PegBody i) = ''peg''"
| "label (ChipBody c) = ''chip''"
| "label GroundBody = ''ground''"
| "label (WallBody w) = ''wall''"

record pegInfo =
  pi_id :: int
  pi_ownerId :: owner

record chipInfo =
  ci_id :: int
  ci_ownerId :: int
  ci_x :: real
  ci_y :: real
  ci_angle :: real

record snapshot =
  snap_chips :: "chipInfo list"
  snap_pegs :: "pegInfo list"
  snap_score :: "(int \<times> jsnum) list"
  snap_winner :: bool
  snap_targetScore :: int

text \<open>The constants imported from \<open>shared/constants\<close>, which are not part of the source.\<close>

record constants =
  ROWS :: int
  COLS :: int
  ROW_SPACING :: real
  COL_SPACING :: real
  VERTICAL_MARGIN :: real
  HORIZONTAL_OFFSET :: real
  TIMESTEP :: real
  TARGET_SCORE :: int

subsection \<open>The state of the engine\<close>

text \<open>
  \<open>chips\<close> and \<open>score\<close> are JavaScript objects used as dictionaries: association
  lists, a key at most once. \<open>loop\<close> is \<open>this.loop\<close>, which no method assigns:
  \<open>None\<close> is \<open>undefined\<close>. \<open>world\<close> is the list of bodies of \<open>engine.world\<close>, and
  \<open>positions\<close> the pose of each chip body, by the chip's identity. \<open>timers\<close> are the
  handles of the live \<open>setInterval\<close> timers, \<open>immediates\<close> the number of pending
  \<open>setImmediate\<close> callbacks, and \<open>broadcasts\<close> the log of the calls of
  \<open>broadcastSnapshot\<close>: the frame and the snapshot emitted to every known socket.
\<close>

record state =
  frame :: int
  inputBuffer :: "input list"
  chips :: "(string \<times> chip) list"
  pegs :: "peg list"
  winner :: bool
  targetScore :: int
  targetScoreInterval :: bool
  score :: "(int \<times> jsnum) list"
  nextTimestep :: "real option"
  loop :: "nat option"
  world :: "body list"
  positions :: "nat \<Rightarrow> pose"
  nextRef :: nat
  timers :: "nat list"
  nextTimer :: nat
  immediates :: nat
  broadcasts :: "(int \<times> snapshot) list"

subsection \<open>Scores\<close>

definition initializeScore :: "constants \<Rightarrow> state \<Rightarrow> state" where
  "initializeScore c s =
     s\<lparr>targetScore := TARGET_SCORE c, targetScoreInterval := False,
       score := [(0, Num 0), (1, Num 0), (2, Num 0), (3, Num 0)]\<rparr>"

definition incrementScore :: "int \<Rightarrow> state \<Rightarrow> state" where
  "incrementScore chipOwner s =
     s\<lparr>score := AList.update chipOwner (js_plus (map_of (score s) chipOwner) 1) (score s)\<rparr>"

definition decrementScore :: "int \<Rightarrow> state \<Rightarrow> state" where
  "decrementScore formerPegOwner s =
     s\<lparr>score := AList.update formerPegOwner
                  (js_plus (map_of (score s) formerPegOwner) (- 1)) (score s)\<rparr>"

text \<open>
  \<open>updateScore(peg, chip)\<close> is called with a peg body and a chip body; it reads the
  \<open>ownerId\<close> of their entities. The decrement is guarded by \<open>if (formerPegOwner)\<close>.
\<close>

definition updateScore :: "peg \<Rightarrow> chip \<Rightarrow> state \<Rightarrow> state" where
  "updateScore p c s =
     (let formerPegOwner = peg_ownerId p; chipOwner = chip_ownerId c in
      if Owner chipOwner \<noteq> formerPegOwner then
        (let s1 = incrementScore chipOwner s in
         if truthy formerPegOwner
         then (case formerPegOwner of Owner former \<Rightarrow> decrementScore former s1 | _ \<Rightarrow> s1)
         else s1)
      else s)"

subsection \<open>Collisions\<close>

text \<open>What \<open>body.parentObject.ownerId\<close> and \<open>body.parentObject.id\<close> read. A wall has
  neither property.\<close>

fun ownerId_of :: "state \<Rightarrow> body \<Rightarrow> owner" where
  "ownerId_of s (PegBody i) = (if i < length (pegs s) then peg_ownerId (pegs s ! i) else Undefined)"
| "ownerId_of s (ChipBody c) = Owner (chip_ownerId c)"
| "ownerId_of s GroundBody = Undefined"
| "ownerId_of s (WallBody w) = Undefined"

fun id_of :: "state \<Rightarrow> body \<Rightarrow> int option" where
  "id_of s (PegBody i) = (if i < length (pegs s) then Some (peg_id (pegs s ! i)) else None)"
| "id_of s (ChipBody c) = Some (chip_id c)"
| "id_of s GroundBody = None"
| "id_of s (WallBody w) = None"

text \<open>
  The body of the \<open>for\<close> loop of \<open>onCollisionStart\<close>, for one pair. The three \<open>if\<close>
  statements run in order. A peg body whose index is outside \<open>this.pegs\<close> does not
  occur (each peg is stored at \<open>this.pegs[id]\<close>); the model leaves the pegs as they are
  there.
\<close>

definition collisionPair :: "body \<times> body \<Rightarrow> state \<Rightarrow> state" where
  "collisionPair pair s =
     (let bodyA = fst pair; bodyB = snd pair;
          s1 = (if label bodyA = ''peg'' \<and> label bodyB = ''chip'' \<and> \<not> winner s then
                  (case (bodyA, bodyB) of
                     (PegBody i, ChipBody c) \<Rightarrow>
                       if i < length (pegs s) then updateScore (pegs s ! i) c s else s
                   | _ \<Rightarrow> s)
                else s);
          s2 = (if label bodyA = ''peg'' then
                  (case bodyA of
                     PegBody i \<Rightarrow>
                       if i < length (pegs s1)
                       then s1\<lparr>pegs := (pegs s1)[i := (pegs s1 ! i)\<lparr>peg_ownerId := ownerId_of s1 bodyB\<rparr>]\<rparr>
                       else s1
                   | _ \<Rightarrow> s1)
                else s1);
          s3 = (if label bodyA = ''ground'' then
                  (let combinedId = String_of_owner (ownerId_of s2 bodyB) @ String_of_id (id_of s2 bodyB)
                   in s2\<lparr>world := removeAll bodyB (world s2),
                         chips := AList.delete combinedId (chips s2)\<rparr>)
                else s2)
      in s3)"

fun onCollisionStart :: "(body \<times> body) list \<Rightarrow> state \<Rightarrow> state" where
  "onCollisionStart [] s = s"
| "onCollisionStart (pair # pairs) s = onCollisionStart pairs (collisionPair pair s)"

subsection \<open>Input\<close>

text \<open>The handler of the \<open>newChip\<close> socket event: \<open>inputBuffer.insert(new Input(chipInfo))\<close>.\<close>

definition onNewChip :: "input \<Rightarrow> state \<Rightarrow> state" where
  "onNewChip chipInfo s = s\<lparr>inputBuffer := inputBuffer s @ [chipInfo]\<rparr>"

text \<open>The combined id \<open>String(ownerId) + String(id)\<close>, as \<open>processInputBuffer\<close> and
  \<open>onCollisionStart\<close> both compute it.\<close>

definition combinedId_of :: "int \<Rightarrow> int \<Rightarrow> string" where
  "combinedId_of ownerId ident = String_of_int ownerId @ String_of_int ident"

text \<open>
  One iteration of the \<open>while\<close> loop of \<open>processInputBuffer\<close>, for the input that
  \<open>shift()\<close> returned: a new chip object, its body added to the world at the input's
  coordinates, and the chip stored under its combined id.
\<close>

definition spawnChip :: "input \<Rightarrow> state \<Rightarrow> state" where
  "spawnChip i s =
     (let c = \<lparr>chip_ref = nextRef s, chip_id = in_id i, chip_ownerId = in_ownerId i\<rparr>;
          combinedId = String_of_int (in_ownerId i) @ String_of_int (in_id i)
      in s\<lparr>nextRef := nextRef s + 1,
           world := world s @ [ChipBody c],
           positions := (positions s)(nextRef s := \<lparr>pos_x = in_x i, pos_y = in_y i, angle = 0\<rparr>),
           chips := AList.update combinedId c (chips s)\<rparr>)"

function processInputBuffer :: "state \<Rightarrow> state" where
  "processInputBuffer s =
     (case inputBuffer s of
        [] \<Rightarrow> s
      | i # rest \<Rightarrow> processInputBuffer (spawnChip i (s\<lparr>inputBuffer := rest\<rparr>)))"
  by pat_completeness auto
termination
  by (relation "measure (\<lambda>s. length (inputBuffer s))") (auto simp: spawnChip_def Let_def)

declare processInputBuffer.simps [simp del]

subsection \<open>Winner and target score\<close>

text \<open>\<open>clearInterval(h)\<close>: cancels the timer with that handle; \<open>undefined\<close> cancels nothing.\<close>

fun clearInterval :: "nat option \<Rightarrow> nat list \<Rightarrow> nat list" where
  "clearInterval None ts = ts"
| "clearInterval (Some h) ts = removeAll h ts"

definition stopGame :: "state \<Rightarrow> state" where
  "stopGame s = s\<lparr>timers := clearInterval (loop s) (timers s)\<rparr>"

definition detectWinner :: "state \<Rightarrow> state" where
  "detectWinner s =
     (let scores = map snd (score s);
          winningPlayer = list_ex (\<lambda>v. js_ge v (targetScore s)) scores
      in if winningPlayer then stopGame (s\<lparr>winner := True\<rparr>) else s)"

text \<open>\<open>setInterval\<close> starts a timer; the handle it returns is dropped.\<close>

definition reduceTargetScoreInterval :: "state \<Rightarrow> state" where
  "reduceTargetScoreInterval s =
     s\<lparr>targetScoreInterval := True, timers := timers s @ [nextTimer s],
       nextTimer := nextTimer s + 1\<rparr>"

text \<open>The callback of the timer, run by the event loop when a live timer fires.\<close>

definition intervalFired :: "nat \<Rightarrow> state \<Rightarrow> state" where
  "intervalFired h s = (if h \<in> set (timers s) then s\<lparr>targetScore := targetScore s - 1\<rparr> else s)"

subsection \<open>Snapshots\<close>

text \<open>
  \<open>generateSnapshot\<close> reads the position of each chip's body from the heap, so it
  takes the state, and as a method it returns the state next to its result. The
  order of \<open>Object.values(chips)\<close> is the engine's enumeration order of the keys; the
  model lists the chips in the order of the association list.
\<close>

definition generateSnapshot ::
  "(string \<times> chip) list \<Rightarrow> peg list \<Rightarrow> (int \<times> jsnum) list \<Rightarrow> bool \<Rightarrow> int \<Rightarrow> state \<Rightarrow> snapshot \<times> state"
where
  "generateSnapshot chs pgs sc w t s =
     (let chipInfos = map (\<lambda>c. \<lparr>ci_id = chip_id c, ci_ownerId = chip_ownerId c,
                                ci_x = pos_x (positions s (chip_ref c)),
                                ci_y = pos_y (positions s (chip_ref c)),
                                ci_angle = angle (positions s (chip_ref c))\<rparr>) (map snd chs);
          pegInfos = map (\<lambda>p. \<lparr>pi_id = peg_id p, pi_ownerId = peg_ownerId p\<rparr>) pgs
      in (\<lparr>snap_chips = chipInfos, snap_pegs = pegInfos, snap_score = sc,
            snap_winner = w, snap_targetScore = t\<rparr>, s))"

definition broadcastSnapshot :: "snapshot \<Rightarrow> state \<Rightarrow> state" where
  "broadcastSnapshot snap s = s\<lparr>broadcasts := broadcasts s @ [(frame s, snap)]\<rparr>"

subsection \<open>The tick loop\<close>

text \<open>
  What one call of \<open>Engine.update\<close> does is the environment's: the new poses of chip
  bodies and the collision pairs it reports. Only bodies in the world move; the
  \<open>collisionStart\<close> handler runs inside the update.
\<close>

record physics =
  moved :: "(nat \<times> pose) list"
  pairs :: "(body \<times> body) list"

definition in_world :: "body list \<Rightarrow> nat \<Rightarrow> bool" where
  "in_world w r = list_ex (\<lambda>b. case b of ChipBody c \<Rightarrow> chip_ref c = r | _ \<Rightarrow> False) w"

definition Engine_update :: "physics \<Rightarrow> state \<Rightarrow> state" where
  "Engine_update e s =
     onCollisionStart (pairs e)
       (s\<lparr>positions := (\<lambda>r. case map_of (moved e) r of
                               Some p \<Rightarrow> if in_world (world s) r then p else positions s r
                             | None \<Rightarrow> positions s r)\<rparr>)"

text \<open>The body of the \<open>while\<close> loop of \<open>startGame\<close>.\<close>

definition tick :: "constants \<Rightarrow> physics \<Rightarrow> state \<Rightarrow> state" where
  "tick c e s =
     (let s1 = s\<lparr>frame := frame s + 1\<rparr>;
          s2 = (if inputBuffer s1 \<noteq> [] then processInputBuffer s1 else s1);
          s3 = Engine_update e s2;
          s4 = (if \<not> winner s3 then detectWinner s3 else s3);
          s5 = (if \<not> targetScoreInterval s4 then reduceTargetScoreInterval s4 else s4);
          r = generateSnapshot (chips s5) (pegs s5) (score s5) (winner s5) (targetScore s5) s5;
          s6 = broadcastSnapshot (fst r) (snd r)
      in s6\<lparr>nextTimestep := map_option (\<lambda>t. t + TIMESTEP c) (nextTimestep s6)\<rparr>)"

text \<open>
  The \<open>while (Date.now() > this.nextTimestep)\<close> loop. Each element of the trace is
  the clock reading of one test of the condition and the physics of the tick that
  follows if the test succeeds. The loop ends at the first failed test; a trace that
  ends first is an observation of the burst up to there.
\<close>

fun tickLoop :: "constants \<Rightarrow> (real \<times> physics) list \<Rightarrow> state \<Rightarrow> state" where
  "tickLoop c [] s = s"
| "tickLoop c ((now, e) # rest) s =
     (case nextTimestep s of
        Some t \<Rightarrow> if now > t then tickLoop c rest (tick c e s) else s
      | None \<Rightarrow> s)"

text \<open>\<open>this.nextTimestep || Date.now()\<close>: \<open>undefined\<close> and \<open>0\<close> are falsy. The last
  statement is \<open>setImmediate(this.startGame.bind(this))\<close>.\<close>

definition startGame :: "constants \<Rightarrow> real \<Rightarrow> (real \<times> physics) list \<Rightarrow> state \<Rightarrow> state" where
  "startGame c now0 trace s =
     (let s1 = s\<lparr>nextTimestep :=
                  Some (case nextTimestep s of
                          Some t \<Rightarrow> if t \<noteq> 0 then t else now0
                        | None \<Rightarrow> now0)\<rparr>;
          s2 = tickLoop c trace s1
      in s2\<lparr>immediates := immediates s2 + 1\<rparr>)"

subsection \<open>Construction\<close>

text \<open>\<open>this.pegs[id] = peg\<close> on an array: at \<open>id = length\<close> it appends. An index
  beyond the length, which would leave holes, does not arise: \<open>id\<close> counts up from 0
  on the empty array.\<close>

definition array_set :: "'a list \<Rightarrow> nat \<Rightarrow> 'a \<Rightarrow> 'a list" where
  "array_set xs i v = take i xs @ [v] @ drop (Suc i) xs"

text \<open>The inner \<open>for (col = 1; col < COLS; col++)\<close> loop of \<open>_createPegs\<close>, with its
  \<open>break\<close> on the last column of an odd row; the local \<open>id\<close> is threaded with the state.\<close>

function createPegs_cols :: "constants \<Rightarrow> int \<Rightarrow> int \<Rightarrow> int \<times> state \<Rightarrow> int \<times> state" where
  "createPegs_cols c row col (ident, s) =
     (if col < COLS c then
        (if row mod 2 = 1 \<and> col = COLS c - 1 then (ident, s)
         else
           (let x0 = real_of_int col * COL_SPACING c;
                y = VERTICAL_MARGIN c + real_of_int row * ROW_SPACING c;
                x = (if row mod 2 = 1 then x0 + HORIZONTAL_OFFSET c else x0);
                p = \<lparr>peg_id = ident, peg_ownerId = Null, peg_x = x, peg_y = y\<rparr>
            in createPegs_cols c row (col + 1)
                 (ident + 1, s\<lparr>pegs := array_set (pegs s) (nat ident) p,
                               world := world s @ [PegBody (nat ident)]\<rparr>)))
      else (ident, s))"
  by pat_completeness auto
termination
  by (relation "measure (\<lambda>(c, row, col, p). nat (COLS c - col))") auto

declare createPegs_cols.simps [simp del]

function createPegs_rows :: "constants \<Rightarrow> int \<Rightarrow> int \<times> state \<Rightarrow> int \<times> state" where
  "createPegs_rows c row p =
     (if row < ROWS c then createPegs_rows c (row + 1) (createPegs_cols c row 1 p) else p)"
  by pat_completeness auto
termination
  by (relation "measure (\<lambda>(c, row, p). nat (ROWS c - row))") auto

declare createPegs_rows.simps [simp del]

definition createPegs :: "constants \<Rightarrow> state \<Rightarrow> state" where
  "createPegs c s = snd (createPegs_rows c 0 (0, s))"

definition createWalls :: "state \<Rightarrow> state" where
  "createWalls s = s\<lparr>world := world s @ [WallBody LeftWall, WallBody RightWall, GroundBody]\<rparr>"

definition createBucketWalls :: "constants \<Rightarrow> state \<Rightarrow> state" where
  "createBucketWalls c s = s\<lparr>world := world s @ map (\<lambda>i. WallBody (BucketWall i)) [1 ..< nat (COLS c)]\<rparr>"

definition createTriangles :: "state \<Rightarrow> state" where
  "createTriangles s = s\<lparr>world := world s @ map (\<lambda>k. WallBody (Triangle k)) [0 ..< 6]\<rparr>"

definition createEnvironment :: "constants \<Rightarrow> state \<Rightarrow> state" where
  "createEnvironment c s = createTriangles (createPegs c (createBucketWalls c (createWalls s)))"

text \<open>The constructor, then \<open>init()\<close>. No field \<open>loop\<close> or \<open>nextTimestep\<close> is assigned.\<close>

definition constructor :: state where
  "constructor =
     \<lparr>frame = 0, inputBuffer = [], chips = [], pegs = [], winner = False, targetScore = 0,
      targetScoreInterval = False, score = [], nextTimestep = None, loop = None,
      world = [], positions = (\<lambda>r. \<lparr>pos_x = 0, pos_y = 0, angle = 0\<rparr>), nextRef = 0,
      timers = [], nextTimer = 0, immediates = 0, broadcasts = []\<rparr>"

definition init :: "constants \<Rightarrow> state" where
  "init c =
     createEnvironment c
       (initializeScore c (constructor\<lparr>chips := [], pegs := [], winner := False\<rparr>))"

subsection \<open>Runs\<close>

text \<open>
  After \<open>init()\<close> the engine is driven by events: a \<open>newChip\<close> message, the firing
  of an interval timer, the first call of \<open>startGame\<close>, and the event loop running
  a pending \<open>setImmediate\<close> callback, which is \<open>startGame\<close> again.
\<close>

datatype event =
  NewChip input
| IntervalFired nat
| StartGame real "(real \<times> physics) list"
| Immediate real "(real \<times> physics) list"

fun step :: "constants \<Rightarrow> event \<Rightarrow> state \<Rightarrow> state" where
  "step c (NewChip i) s = onNewChip i s"
| "step c (IntervalFired h) s = intervalFired h s"
| "step c (StartGame now0 trace) s = startGame c now0 trace s"
| "step c (Immediate now0 trace) s =
     (if 0 < immediates s then startGame c now0 trace (s\<lparr>immediates := immediates s - 1\<rparr>) else s)"

fun run :: "constants \<Rightarrow> event list \<Rightarrow> state \<Rightarrow> state" where
  "run c [] s = s"
| "run c (ev # evs) s = run c evs (step c ev s)"

subsection \<open>Invariants and auxiliary notions\<close>

text \<open>
  Before the first tick no timer exists and the target score is the constant; from the
  first tick on, the flag \<open>targetScoreInterval\<close> is set and exactly the timer with the
  handle 0 is live. \<open>this.loop\<close> stays \<open>undefined\<close>.
\<close>

definition decay_inv :: "constants \<Rightarrow> state \<Rightarrow> bool" where
  "decay_inv c s =
     (loop s = None \<and> 0 \<le> frame s \<and>
      (if 0 < frame s then targetScoreInterval s \<and> timers s = [0]
       else \<not> targetScoreInterval s \<and> timers s = [] \<and> nextTimer s = 0
            \<and> targetScore s = TARGET_SCORE c))"

text \<open>While \<open>_createPegs\<close> runs, the local \<open>id\<close> is the length of \<open>this.pegs\<close>, and
  the peg at each index has that index as its id.\<close>

definition pegs_indexed :: "int \<times> state \<Rightarrow> bool" where
  "pegs_indexed p =
     (fst p = int (length (pegs (snd p)))
      \<and> map peg_id (pegs (snd p)) = map int [0 ..< length (pegs (snd p))])"

text \<open>Every chip of the registry is stored under the combined id of its own fields.\<close>

definition chips_keyed :: "state \<Rightarrow> bool" where
  "chips_keyed s =
     list_all (\<lambda>kc. fst kc = combinedId_of (chip_ownerId (snd kc)) (chip_id (snd kc))) (chips s)"

text \<open>The first steps of a tick, up to the update of the engine: the frame is counted
  and the input buffer drained.\<close>

definition before_update :: "state \<Rightarrow> state" where
  "before_update s =
     (if inputBuffer s \<noteq> [] then processInputBuffer (s\<lparr>frame := frame s + 1\<rparr>)
      else s\<lparr>frame := frame s + 1\<rparr>)"

text \<open>The pegs are numbered by their index, and every snapshot broadcast so far lists
  them so.\<close>

definition snapshots_ok :: "state \<Rightarrow> bool" where
  "snapshots_ok s =
     (map peg_id (pegs s) = map int [0 ..< length (pegs s)]
      \<and> list_all (\<lambda>b. map pi_id (snap_pegs (snd b)) = map int [0 ..< length (pegs s)])
           (broadcasts s))"

text \<open>The combined id of an input, and what an entry of the registry says: its key
  and the owner and id of its chip.\<close>

definition input_key :: "input \<Rightarrow> string" where
  "input_key i = combinedId_of (in_ownerId i) (in_id i)"

definition entry_ids :: "string \<times> chip \<Rightarrow> string \<times> int \<times> int" where
  "entry_ids kc = (fst kc, chip_ownerId (snd kc), chip_id (snd kc))"

subsection \<open>A small board and sample inputs\<close>

text \<open>Two rows and three columns give three pegs, numbered 0 to 2; the target score
  is 2.\<close>

definition board :: constants where
  "board = \<lparr>ROWS = 2, COLS = 3, ROW_SPACING = 10, COL_SPACING = 10, VERTICAL_MARGIN = 5,
            HORIZONTAL_OFFSET = 5, TIMESTEP = 16, TARGET_SCORE = 2\<rparr>"

definition chipOf :: "nat \<Rightarrow> int \<Rightarrow> int \<Rightarrow> chip" where
  "chipOf r ownerId ident = \<lparr>chip_ref = r, chip_id = ident, chip_ownerId = ownerId\<rparr>"

definition newChip :: "int \<Rightarrow> int \<Rightarrow> input" where
  "newChip ownerId ident = \<lparr>in_id = ident, in_ownerId = ownerId, in_x = 100, in_y = 0\<rparr>"

text \<open>An update of the engine that moves nothing and reports the given pairs.\<close>

definition still :: "(body \<times> body) list \<Rightarrow> physics" where
  "still prs = \<lparr>moved = [], pairs = prs\<rparr>"

text \<open>Player 0 drops a chip that touches peg 0 in the first tick; then player 1 drops
  a chip that touches peg 0 in a tick of the next burst.\<close>

definition first_touch :: state where
  "first_touch =
     run board [NewChip (newChip 0 5),
                StartGame 100 [(101, still [(PegBody 0, ChipBody (chipOf 0 0 5))])]]
       (init board)"

definition second_touch :: state where
  "second_touch =
     run board [NewChip (newChip 1 5),
                Immediate 120 [(121, still [(PegBody 0, ChipBody (chipOf 1 1 5))])]]
       first_touch"

text \<open>Two inputs with different pairs (ownerId, id) are inserted and drained.\<close>

definition colliding_drain :: state where
  "colliding_drain =
     processInputBuffer (onNewChip (newChip 12 3) (onNewChip (newChip 1 23) (init board)))"

text \<open>A client sends the owner 7; the chip is spawned in the first tick and touches
  peg 0.\<close>

definition rogue_run :: state where
  "rogue_run =
     run board [NewChip (newChip 7 3),
                StartGame 100 [(101, still [(PegBody 0, ChipBody (chipOf 0 7 3))])]]
       (init board)"

text \<open>Player 1 reaches the target score 2 in the first tick: its chip touches the pegs
  0 and 1. Then player 2 drops a chip, which is spawned in the next burst; and the play
  goes on with a contact of that chip and a firing of the timer.\<close>

definition won :: state where
  "won =
     run board [NewChip (newChip 1 5),
                StartGame 100 [(101, still [(PegBody 0, ChipBody (chipOf 0 1 5)),
                                            (PegBody 1, ChipBody (chipOf 0 1 5))])]]
       (init board)"

definition spawned :: state where
  "spawned = run board [NewChip (newChip 2 9), Immediate 120 [(121, still [])]] won"

definition after_win :: "event list" where
  "after_win =
     [Immediate 140 [(141, still [(PegBody 2, ChipBody (chipOf 1 2 9)),
                                  (PegBody 0, ChipBody (chipOf 1 2 9))])],
      IntervalFired 0]"

text \<open>A burst that catches up: two ticks back to back, then the clock test fails.\<close>

definition burst2 :: "event list" where
  "burst2 = [StartGame 100 [(101, still []), (117, still []), (118, still [])]]"

section \<open>What each method leaves unchanged\<close>

lemma incrementScore_fields [simp]:
  "frame (incrementScore k s) = frame s"
  "inputBuffer (incrementScore k s) = inputBuffer s"
  "chips (incrementScore k s) = chips s"
  "pegs (incrementScore k s) = pegs s"
  "winner (incrementScore k s) = winner s"
  "targetScore (incrementScore k s) = targetScore s"
  "targetScoreInterval (incrementScore k s) = targetScoreInterval s"
  "nextTimestep (incrementScore k s) = nextTimestep s"
  "loop (incrementScore k s) = loop s"
  "world (incrementScore k s) = world s"
  "positions (incrementScore k s) = positions s"
  "nextRef (incrementScore k s) = nextRef s"
  "timers (incrementScore k s) = timers s"
  "nextTimer (incrementScore k s) = nextTimer s"
  "immediates (incrementScore k s) = immediates s"
  "broadcasts (incrementScore k s) = broadcasts s"
  by (simp_all add: incrementScore_def)

lemma decrementScore_fields [simp]:
  "frame (decrementScore k s) = frame s"
  "inputBuffer (decrementScore k s) = inputBuffer s"
  "chips (decrementScore k s) = chips s"
  "pegs (decrementScore k s) = pegs s"
  "winner (decrementScore k s) = winner s"
  "targetScore (decrementScore k s) = targetScore s"
  "targetScoreInterval (decrementScore k s) = targetScoreInterval s"
  "nextTimestep (decrementScore k s) = nextTimestep s"
  "loop (decrementScore k s) = loop s"
  "world (decrementScore k s) = world s"
  "positions (decrementScore k s) = positions s"
  "nextRef (decrementScore k s) = nextRef s"
  "timers (decrementScore k s) = timers s"
  "nextTimer (decrementScore k s) = nextTimer s"
  "immediates (decrementScore k s) = immediates s"
  "broadcasts (decrementScore k s) = broadcasts s"
  by (simp_all add: decrementScore_def)

lemma updateScore_fields [simp]:
  "frame (updateScore p c s) = frame s"
  "inputBuffer (updateScore p c s) = inputBuffer s"
  "chips (updateScore p c s) = chips s"
  "pegs (updateScore p c s) = pegs s"
  "winner (updateScore p c s) = winner s"
  "targetScore (updateScore p c s) = targetScore s"
  "targetScoreInterval (updateScore p c s) = targetScoreInterval s"
  "nextTimestep (updateScore p c s) = nextTimestep s"
  "loop (updateScore p c s) = loop s"
  "world (updateScore p c s) = world s"
  "positions (updateScore p c s) = positions s"
  "nextRef (updateScore p c s) = nextRef s"
  "timers (updateScore p c s) = timers s"
  "nextTimer (updateScore p c s) = nextTimer s"
  "immediates (updateScore p c s) = immediates s"
  "broadcasts (updateScore p c s) = broadcasts s"
  by (simp_all add: updateScore_def Let_def split: owner.splits)

lemma collisionPair_fields [simp]:
  "frame (collisionPair pr s) = frame s"
  "inputBuffer (collisionPair pr s) = inputBuffer s"
  "winner (collisionPair pr s) = winner s"
  "targetScore (collisionPair pr s) = targetScore s"
  "targetScoreInterval (collisionPair pr s) = targetScoreInterval s"
  "nextTimestep (collisionPair pr s) = nextTimestep s"
  "loop (collisionPair pr s) = loop s"
  "positions (collisionPair pr s) = positions s"
  "nextRef (collisionPair pr s) = nextRef s"
  "timers (collisionPair pr s) = timers s"
  "nextTimer (collisionPair pr s) = nextTimer s"
  "immediates (collisionPair pr s) = immediates s"
  "broadcasts (collisionPair pr s) = broadcasts s"
  by (cases pr; cases "fst pr"; cases "snd pr"; simp add: collisionPair_def Let_def)+

lemma collisionPair_winner_score:
  "winner s \<Longrightarrow> score (collisionPair pr s) = score s"
  by (cases pr; cases "fst pr"; cases "snd pr"; simp add: collisionPair_def Let_def)

lemma collisionPair_peg_ids [simp]:
  "map peg_id (pegs (collisionPair pr s)) = map peg_id (pegs s)"
  "length (pegs (collisionPair pr s)) = length (pegs s)"
  by (cases pr; cases "fst pr"; cases "snd pr"; simp add: collisionPair_def Let_def map_update list_eq_iff_nth_eq nth_list_update)+

lemma onCollisionStart_fields [simp]:
  "frame (onCollisionStart prs s) = frame s"
  "inputBuffer (onCollisionStart prs s) = inputBuffer s"
  "winner (onCollisionStart prs s) = winner s"
  "targetScore (onCollisionStart prs s) = targetScore s"
  "targetScoreInterval (onCollisionStart prs s) = targetScoreInterval s"
  "nextTimestep (onCollisionStart prs s) = nextTimestep s"
  "loop (onCollisionStart prs s) = loop s"
  "positions (onCollisionStart prs s) = positions s"
  "nextRef (onCollisionStart prs s) = nextRef s"
  "timers (onCollisionStart prs s) = timers s"
  "nextTimer (onCollisionStart prs s) = nextTimer s"
  "immediates (onCollisionStart prs s) = immediates s"
  "broadcasts (onCollisionStart prs s) = broadcasts s"
  "map peg_id (pegs (onCollisionStart prs s)) = map peg_id (pegs s)"
  "length (pegs (onCollisionStart prs s)) = length (pegs s)"
  by (induction prs arbitrary: s; simp)+

lemma onCollisionStart_winner_score:
  "winner s \<Longrightarrow> score (onCollisionStart prs s) = score s"
  by (induction prs arbitrary: s) (simp_all add: collisionPair_winner_score)

lemma spawnChip_fields [simp]:
  "frame (spawnChip i s) = frame s"
  "inputBuffer (spawnChip i s) = inputBuffer s"
  "pegs (spawnChip i s) = pegs s"
  "winner (spawnChip i s) = winner s"
  "targetScore (spawnChip i s) = targetScore s"
  "targetScoreInterval (spawnChip i s) = targetScoreInterval s"
  "score (spawnChip i s) = score s"
  "nextTimestep (spawnChip i s) = nextTimestep s"
  "loop (spawnChip i s) = loop s"
  "timers (spawnChip i s) = timers s"
  "nextTimer (spawnChip i s) = nextTimer s"
  "immediates (spawnChip i s) = immediates s"
  "broadcasts (spawnChip i s) = broadcasts s"
  by (simp_all add: spawnChip_def Let_def)

lemma processInputBuffer_fields [simp]:
  "frame (processInputBuffer s) = frame s"
  "pegs (processInputBuffer s) = pegs s"
  "winner (processInputBuffer s) = winner s"
  "targetScore (processInputBuffer s) = targetScore s"
  "targetScoreInterval (processInputBuffer s) = targetScoreInterval s"
  "score (processInputBuffer s) = score s"
  "nextTimestep (processInputBuffer s) = nextTimestep s"
  "loop (processInputBuffer s) = loop s"
  "timers (processInputBuffer s) = timers s"
  "nextTimer (processInputBuffer s) = nextTimer s"
  "immediates (processInputBuffer s) = immediates s"
  "broadcasts (processInputBuffer s) = broadcasts s"
  by (induction s rule: processInputBuffer.induct;
      subst processInputBuffer.simps; simp split: list.splits)+

lemma processInputBuffer_empties [simp]: "inputBuffer (processInputBuffer s) = []"
  by (induction s rule: processInputBuffer.induct)
     (subst processInputBuffer.simps; simp split: list.splits)

lemma stopGame_fields [simp]:
  "frame (stopGame s) = frame s"
  "pegs (stopGame s) = pegs s"
  "winner (stopGame s) = winner s"
  "targetScore (stopGame s) = targetScore s"
  "targetScoreInterval (stopGame s) = targetScoreInterval s"
  "score (stopGame s) = score s"
  "nextTimestep (stopGame s) = nextTimestep s"
  "loop (stopGame s) = loop s"
  "nextTimer (stopGame s) = nextTimer s"
  "immediates (stopGame s) = immediates s"
  "broadcasts (stopGame s) = broadcasts s"
  "chips (stopGame s) = chips s"
  "world (stopGame s) = world s"
  "timers (stopGame s) = clearInterval (loop s) (timers s)"
  by (simp_all add: stopGame_def)

lemma detectWinner_fields [simp]:
  "frame (detectWinner s) = frame s"
  "pegs (detectWinner s) = pegs s"
  "targetScore (detectWinner s) = targetScore s"
  "targetScoreInterval (detectWinner s) = targetScoreInterval s"
  "score (detectWinner s) = score s"
  "nextTimestep (detectWinner s) = nextTimestep s"
  "loop (detectWinner s) = loop s"
  "nextTimer (detectWinner s) = nextTimer s"
  "immediates (detectWinner s) = immediates s"
  "broadcasts (detectWinner s) = broadcasts s"
  "chips (detectWinner s) = chips s"
  "world (detectWinner s) = world s"
  by (simp_all add: detectWinner_def Let_def)

lemma detectWinner_winner:
  "winner (detectWinner s) = (winner s \<or> list_ex (\<lambda>v. js_ge v (targetScore s)) (map snd (score s)))"
  by (simp add: detectWinner_def Let_def)

lemma detectWinner_timers:
  "loop s = None \<Longrightarrow> timers (detectWinner s) = timers s"
  by (simp add: detectWinner_def Let_def)

lemma reduceTargetScoreInterval_fields [simp]:
  "frame (reduceTargetScoreInterval s) = frame s"
  "pegs (reduceTargetScoreInterval s) = pegs s"
  "winner (reduceTargetScoreInterval s) = winner s"
  "targetScore (reduceTargetScoreInterval s) = targetScore s"
  "targetScoreInterval (reduceTargetScoreInterval s) = True"
  "score (reduceTargetScoreInterval s) = score s"
  "nextTimestep (reduceTargetScoreInterval s) = nextTimestep s"
  "loop (reduceTargetScoreInterval s) = loop s"
  "immediates (reduceTargetScoreInterval s) = immediates s"
  "broadcasts (reduceTargetScoreInterval s) = broadcasts s"
  "chips (reduceTargetScoreInterval s) = chips s"
  "world (reduceTargetScoreInterval s) = world s"
  "timers (reduceTargetScoreInterval s) = timers s @ [nextTimer s]"
  by (simp_all add: reduceTargetScoreInterval_def)

lemma Engine_update_fields [simp]:
  "frame (Engine_update e s) = frame s"
  "inputBuffer (Engine_update e s) = inputBuffer s"
  "winner (Engine_update e s) = winner s"
  "targetScore (Engine_update e s) = targetScore s"
  "targetScoreInterval (Engine_update e s) = targetScoreInterval s"
  "nextTimestep (Engine_update e s) = nextTimestep s"
  "loop (Engine_update e s) = loop s"
  "timers (Engine_update e s) = timers s"
  "nextTimer (Engine_update e s) = nextTimer s"
  "immediates (Engine_update e s) = immediates s"
  "broadcasts (Engine_update e s) = broadcasts s"
  "map peg_id (pegs (Engine_update e s)) = map peg_id (pegs s)"
  "length (pegs (Engine_update e s)) = length (pegs s)"
  by (simp_all add: Engine_update_def)

lemma Engine_update_winner_score:
  "winner s \<Longrightarrow> score (Engine_update e s) = score s"
  by (simp add: Engine_update_def onCollisionStart_winner_score)

lemma tick_frame: "frame (tick c e s) = frame s + 1"
  by (simp add: tick_def Let_def generateSnapshot_def broadcastSnapshot_def)

lemma tick_winner_score:
  "winner s \<Longrightarrow> winner (tick c e s) \<and> score (tick c e s) = score s"
  by (simp add: tick_def Let_def generateSnapshot_def broadcastSnapshot_def Engine_update_winner_score)

lemma tick_peg_ids: "map peg_id (pegs (tick c e s)) = map peg_id (pegs s)"
  by (simp add: tick_def Let_def generateSnapshot_def broadcastSnapshot_def)

section \<open>Association lists\<close>

lemma update_fresh: "k \<notin> fst ` set al \<Longrightarrow> AList.update k v al = al @ [(k, v)]"
  by (induction al) auto

lemma map_of_fresh: "k \<notin> fst ` set al \<Longrightarrow> map_of al k = None"
  by (simp add: map_of_eq_None_iff)

lemma map_fst_update_present:
  "k \<in> fst ` set al \<Longrightarrow> map fst (AList.update k v al) = map fst al"
  by (induction al) auto

section \<open>Ownership transfer and scores\<close>

text \<open>
  With no winner, a chip that touches a peg of another player who is not player 0 moves
  one point from that player to the chip's owner; a chip that touches an unowned peg
  gives its owner one point. A peg of player 0 is treated as an unowned one.
\<close>

lemma transfer_from_player:
  assumes "\<not> winner s" "i < length (pegs s)" "peg_ownerId (pegs s ! i) = Owner a" "a \<noteq> 0"
    and "chip_ownerId c \<noteq> a"
    and "map_of (score s) a = Some (Num x)" "map_of (score s) (chip_ownerId c) = Some (Num y)"
  shows "map_of (score (collisionPair (PegBody i, ChipBody c) s))
           = (map_of (score s))(chip_ownerId c \<mapsto> Num (y + 1), a \<mapsto> Num (x - 1))"
  using assms
  by (simp add: collisionPair_def Let_def updateScore_def incrementScore_def decrementScore_def
      update_conv')

lemma transfer_from_unowned:
  assumes "\<not> winner s" "i < length (pegs s)" "peg_ownerId (pegs s ! i) = Null"
    and "map_of (score s) (chip_ownerId c) = Some (Num y)"
  shows "map_of (score (collisionPair (PegBody i, ChipBody c) s))
           = (map_of (score s))(chip_ownerId c \<mapsto> Num (y + 1))"
  using assms
  by (simp add: collisionPair_def Let_def updateScore_def incrementScore_def update_conv')

lemma transfer_from_player_0:
  assumes "\<not> winner s" "i < length (pegs s)" "peg_ownerId (pegs s ! i) = Owner 0"
    and "chip_ownerId c \<noteq> 0"
    and "map_of (score s) (chip_ownerId c) = Some (Num y)"
  shows "map_of (score (collisionPair (PegBody i, ChipBody c) s))
           = (map_of (score s))(chip_ownerId c \<mapsto> Num (y + 1))"
  using assms
  by (simp add: collisionPair_def Let_def updateScore_def incrementScore_def update_conv')

text \<open>
  C1. For every (peg, chip) collision processed while no winner is declared, with the
  peg's former owner A and the chip's owner B: if B differs from A then score[B]
  increases by exactly 1, and if A is not unowned then score[A] decreases by exactly 1,
  so the sum of the scores changes by 0 when A is an owned player; afterwards the peg
  is owned by B.

  The code guards the decrement with \<open>if (formerPegOwner)\<close>, and the owner 0 is falsy.
  Peg 0 of the board is first touched by a chip of player 0 (score[0] becomes 1), then,
  with no winner, by a chip of player 1: score[1] becomes 1, the peg goes to player 1,
  but score[0] stays 1 where the claim has it go back to 0, and the sum grows to 2.
\<close>

theorem owner_zero_peg_not_decremented:
  "\<not> winner first_touch
   \<and> peg_ownerId (pegs first_touch ! 0) = Owner 0
   \<and> score first_touch = [(0, Num 1), (1, Num 0), (2, Num 0), (3, Num 0)]
   \<and> peg_ownerId (pegs second_touch ! 0) = Owner 1
   \<and> score second_touch = [(0, Num 1), (1, Num 1), (2, Num 0), (3, Num 0)]"
  by code_simp

section \<open>Draining the input buffer\<close>

text \<open>
  \<open>String\<close> is injective on the integers, and an owner from 0 to 9 is one character:
  for such owners the combined id determines the pair. A drain of inputs with such
  owners and pairwise different pairs into an empty registry stores one chip per input,
  in order, each under its own key.
\<close>

lemma below_ten: "(a::nat) < 10 \<Longrightarrow> a \<in> {0, 1, 2, 3, 4, 5, 6, 7, 8, 9}"
  by auto

lemma digit_char_inj: "a < 10 \<Longrightarrow> b < 10 \<Longrightarrow> digit_char a = digit_char b \<Longrightarrow> a = b"
proof -
  assume a: "a < 10" and b: "b < 10" and e: "digit_char a = digit_char b"
  from below_ten [OF a] below_ten [OF b] e show ?thesis
    by (auto simp: digit_char_def)
qed

lemma digits_nonempty: "digits n \<noteq> []"
  by (subst digits.simps) simp

lemma digits_length_one: "n < 10 \<Longrightarrow> length (digits n) = 1"
  by (subst digits.simps) simp

lemma digits_length_more: "\<not> n < 10 \<Longrightarrow> 2 \<le> length (digits n)"
  using digits_nonempty [of "n div 10"]
  by (subst digits.simps) (cases "digits (n div 10)"; simp)

lemma digits_inj: "digits m = digits n \<Longrightarrow> m = n"
proof (induction m arbitrary: n rule: digits.induct)
  case (1 m)
  show ?case
  proof (cases "m < 10")
    case True
    note m = this
    show ?thesis
    proof (cases "n < 10")
      case True
      with m "1.prems" show ?thesis
        by (simp add: digits.simps [of m] digits.simps [of n] digit_char_inj)
    next
      case False
      from digits_length_more [OF False] digits_length_one [OF m] "1.prems"
      show ?thesis by simp
    qed
  next
    case False
    note m = this
    show ?thesis
    proof (cases "n < 10")
      case True
      from digits_length_more [OF m] digits_length_one [OF True] "1.prems"
      show ?thesis by simp
    next
      case False
      from m False "1.prems"
      have e: "digits (m div 10) = digits (n div 10)"
        and d: "digit_char (m mod 10) = digit_char (n mod 10)"
        by (simp_all add: digits.simps [of m] digits.simps [of n])
      from "1.IH" [OF m e] have "m div 10 = n div 10" .
      moreover from d have "m mod 10 = n mod 10"
        by (simp add: digit_char_inj)
      ultimately show ?thesis
        by (metis div_mult_mod_eq)
    qed
  qed
qed

lemma digits_no_minus: "CHR ''-'' \<notin> set (digits n)"
proof (induction n rule: digits.induct)
  case (1 n)
  have d: "CHR ''-'' \<noteq> digit_char k" for k
  proof -
    have "k mod 10 < 10" by simp
    from below_ten [OF this] show ?thesis by (auto simp: digit_char_def)
  qed
  show ?case
  proof (cases "n < 10")
    case True
    then show ?thesis by (simp add: digits.simps [of n] d)
  next
    case False
    with "1.IH" show ?thesis by (simp add: digits.simps [of n] d)
  qed
qed

lemma String_of_int_inj: "String_of_int i = String_of_int j \<Longrightarrow> i = j"
proof -
  assume e: "String_of_int i = String_of_int j"
  have h: "hd (digits n) \<noteq> CHR ''-''" for n
    using digits_no_minus [of n] digits_nonempty [of n] by (cases "digits n") auto
  show ?thesis
  proof (cases "i < 0")
    case True
    note i = this
    show ?thesis
    proof (cases "j < 0")
      case True
      with i e have "nat (- i) = nat (- j)" by (simp add: String_of_int_def digits_inj)
      with i True show ?thesis by simp
    next
      case False
      with i e h [of "nat j"] show ?thesis
        by (cases "digits (nat j)") (auto simp: String_of_int_def)
    qed
  next
    case False
    note i = this
    show ?thesis
    proof (cases "j < 0")
      case True
      with i e h [of "nat i"] show ?thesis
        by (cases "digits (nat i)") (auto simp: String_of_int_def)
    next
      case False
      with i e have "nat i = nat j" by (simp add: String_of_int_def digits_inj)
      with i False show ?thesis by simp
    qed
  qed
qed

lemma combinedId_of_inj_digit:
  assumes "0 \<le> a" "a < 10" "0 \<le> b" "b < 10"
    and "combinedId_of a i = combinedId_of b j"
  shows "a = b \<and> i = j"
proof -
  from assms(1,2) have la: "length (String_of_int a) = 1"
    by (simp add: String_of_int_def digits_length_one)
  from assms(3,4) have lb: "length (String_of_int b) = 1"
    by (simp add: String_of_int_def digits_length_one)
  from assms(5) la lb have "String_of_int a = String_of_int b \<and> String_of_int i = String_of_int j"
    by (simp add: combinedId_of_def)
  then show ?thesis by (simp add: String_of_int_inj)
qed

lemma spawnChip_entries:
  "input_key i \<notin> fst ` set (chips s) \<Longrightarrow>
     map entry_ids (chips (spawnChip i s))
       = map entry_ids (chips s) @ [(input_key i, in_ownerId i, in_id i)]"
  by (simp add: spawnChip_def Let_def input_key_def combinedId_of_def update_fresh entry_ids_def)

lemma map_fst_entry_ids: "fst ` set (chips s) = fst ` set (map entry_ids (chips s))"
  by (force simp: entry_ids_def)

lemma drain_distinct_keys:
  "distinct (map input_key (inputBuffer s)) \<Longrightarrow>
   set (map input_key (inputBuffer s)) \<inter> fst ` set (chips s) = {} \<Longrightarrow>
     map entry_ids (chips (processInputBuffer s))
       = map entry_ids (chips s) @ map (\<lambda>i. (input_key i, in_ownerId i, in_id i)) (inputBuffer s)"
proof (induction s rule: processInputBuffer.induct)
  case (1 s)
  show ?case
  proof (cases "inputBuffer s")
    case Nil
    then show ?thesis by (subst processInputBuffer.simps) simp
  next
    case (Cons i rest)
    let ?t = "spawnChip i (s\<lparr>inputBuffer := rest\<rparr>)"
    from "1.prems" Cons have fresh: "input_key i \<notin> fst ` set (chips s)" by auto
    then have e: "map entry_ids (chips ?t)
        = map entry_ids (chips s) @ [(input_key i, in_ownerId i, in_id i)]"
      using spawnChip_entries [of i "s\<lparr>inputBuffer := rest\<rparr>"] by simp
    have ib: "inputBuffer ?t = rest" by simp
    from "1.prems" Cons have d: "distinct (map input_key (inputBuffer ?t))"
      by (simp add: ib)
    have "fst ` set (chips ?t) = insert (input_key i) (fst ` set (chips s))"
      using e map_fst_entry_ids [of ?t] map_fst_entry_ids [of s] by (simp del: spawnChip_fields)
    with "1.prems" Cons have dj: "set (map input_key (inputBuffer ?t)) \<inter> fst ` set (chips ?t) = {}"
      by (auto simp: ib)
    from "1.IH" [OF Cons d dj] e ib Cons show ?thesis
      by (subst processInputBuffer.simps) simp
  qed
qed

lemma input_key_inj_on:
  assumes "\<forall>i \<in> set is. 0 \<le> in_ownerId i \<and> in_ownerId i < 10"
    and "distinct (map (\<lambda>i. (in_ownerId i, in_id i)) is)"
  shows "distinct (map input_key is)"
proof -
  have "inj_on (\<lambda>p. combinedId_of (fst p) (snd p)) ((\<lambda>i. (in_ownerId i, in_id i)) ` set is)"
    using assms(1) by (auto simp: inj_on_def dest: combinedId_of_inj_digit)
  with assms(2) have "distinct (map (\<lambda>p. combinedId_of (fst p) (snd p)) (map (\<lambda>i. (in_ownerId i, in_id i)) is))"
    by (simp add: distinct_map del: map_map)
  moreover have "input_key = (\<lambda>i. combinedId_of (in_ownerId i) (in_id i))"
    by (rule ext) (simp add: input_key_def)
  ultimately show ?thesis by (simp add: comp_def)
qed

lemma drain_single_digit_owners:
  assumes "chips s = []"
    and "\<forall>i \<in> set (inputBuffer s). 0 \<le> in_ownerId i \<and> in_ownerId i < 10"
    and "distinct (map (\<lambda>i. (in_ownerId i, in_id i)) (inputBuffer s))"
  shows "length (chips (processInputBuffer s)) = length (inputBuffer s)"
    and "map entry_ids (chips (processInputBuffer s))
           = map (\<lambda>i. (input_key i, in_ownerId i, in_id i)) (inputBuffer s)"
    and "distinct (map fst (chips (processInputBuffer s)))"
proof -
  from input_key_inj_on [OF assms(2,3)] have d: "distinct (map input_key (inputBuffer s))" .
  from drain_distinct_keys [OF d] assms(1)
  show e: "map entry_ids (chips (processInputBuffer s))
           = map (\<lambda>i. (input_key i, in_ownerId i, in_id i)) (inputBuffer s)"
    by simp
  from e have "length (map entry_ids (chips (processInputBuffer s))) = length (inputBuffer s)"
    by simp
  then show "length (chips (processInputBuffer s)) = length (inputBuffer s)" by simp
  from e have "map fst (map entry_ids (chips (processInputBuffer s))) = map input_key (inputBuffer s)"
    by (simp add: comp_def)
  then have "map fst (chips (processInputBuffer s)) = map input_key (inputBuffer s)"
    by (simp add: comp_def entry_ids_def)
  with d show "distinct (map fst (chips (processInputBuffer s)))" by simp
qed

text \<open>
  C2. For every sequence of newChip inputs whose pairs (ownerId, id) are pairwise
  distinct, after one drain the world holds exactly that many chips, each retrievable
  by its combined key, which is unique among live chips.

  The combined id is \<open>String(ownerId) + String(id)\<close>, with nothing between the two
  numbers: the distinct pairs (1, 23) and (12, 3) both give the key 123. After the
  drain of these two inputs the registry holds one chip, the second, and the chip
  (1, 23) cannot be retrieved, although both bodies are in the world.
\<close>

theorem combined_id_collision_loses_chip:
  "combinedId_of 1 23 = combinedId_of 12 3
   \<and> chips colliding_drain = [(''123'', chipOf 1 12 3)]
   \<and> filter (\<lambda>b. label b = ''chip'') (world colliding_drain)
       = [ChipBody (chipOf 0 1 23), ChipBody (chipOf 1 12 3)]"
  by code_simp

section \<open>Player identifiers from clients\<close>

text \<open>
  C4, as stated: an ownerId arriving in a newChip payload is validated against the
  range from 0 to 3 before use, and an access to the score map with an identifier
  outside the four slots fails with UnknownPlayerError rather than silently changing
  the map.

  The code has no validation and no such error. A client sends the owner 7: the chip
  is spawned with the owner 7, its contact with peg 0 runs to the end of the tick, and
  the score map has gained the key 7 with the value NaN.
\<close>

theorem ownerId_unvalidated_counterexample:
  "score (init board) = [(0, Num 0), (1, Num 0), (2, Num 0), (3, Num 0)]
   \<and> map snd (chips rogue_run) = [chipOf 0 7 3]
   \<and> score rogue_run = [(0, Num 0), (1, Num 0), (2, Num 0), (3, Num 0), (7, NaN)]
   \<and> frame rogue_run = 1"
  by code_simp

text \<open>
  C4, amended: an ownerId arriving in a newChip payload is used as it arrives: the
  chip spawned from an input carries the input's ownerId, whatever it is, and is stored
  under the combined id. Incrementing or decrementing the score of an identifier that is
  not a key of the score map adds it to the map with the value NaN; for an identifier
  that is a key, the keys of the map stay as they are. No path of these methods raises
  an error.
\<close>

theorem ownerId_unvalidated:
  "map_of (chips (spawnChip i s)) (combinedId_of (in_ownerId i) (in_id i))
     = Some \<lparr>chip_ref = nextRef s, chip_id = in_id i, chip_ownerId = in_ownerId i\<rparr>
   \<and> (k \<notin> fst ` set (score s) \<longrightarrow>
        score (incrementScore k s) = score s @ [(k, NaN)] \<and>
        score (decrementScore k s) = score s @ [(k, NaN)])
   \<and> (k \<in> fst ` set (score s) \<longrightarrow>
        map fst (score (incrementScore k s)) = map fst (score s) \<and>
        map fst (score (decrementScore k s)) = map fst (score s))"
proof (intro conjI impI)
  show "map_of (chips (spawnChip i s)) (combinedId_of (in_ownerId i) (in_id i))
     = Some \<lparr>chip_ref = nextRef s, chip_id = in_id i, chip_ownerId = in_ownerId i\<rparr>"
    by (simp add: spawnChip_def Let_def combinedId_of_def update_conv')
next
  assume "k \<notin> fst ` set (score s)"
  then show "score (incrementScore k s) = score s @ [(k, NaN)]"
    by (simp add: incrementScore_def update_fresh map_of_fresh)
next
  assume "k \<notin> fst ` set (score s)"
  then show "score (decrementScore k s) = score s @ [(k, NaN)]"
    by (simp add: decrementScore_def update_fresh map_of_fresh)
next
  assume "k \<in> fst ` set (score s)"
  then show "map fst (score (incrementScore k s)) = map fst (score s)"
    by (simp add: incrementScore_def map_fst_update_present)
next
  assume "k \<in> fst ` set (score s)"
  then show "map fst (score (decrementScore k s)) = map fst (score s)"
    by (simp add: decrementScore_def map_fst_update_present)
qed

theorem ownerId_unvalidated_witness:
  "map_of (chips (spawnChip (newChip 7 3) (init board))) (combinedId_of 7 3) = Some (chipOf 0 7 3)
   \<and> (7::int) \<notin> fst ` set (score (init board))
   \<and> score (incrementScore 7 (init board)) = score (init board) @ [(7, NaN)]
   \<and> (1::int) \<in> fst ` set (score (init board))
   \<and> map fst (score (decrementScore 1 (init board))) = map fst (score (init board))"
proof -
  have a: "(7::int) \<notin> fst ` set (score (init board))" by code_simp
  have b: "(1::int) \<in> fst ` set (score (init board))" by code_simp
  have n: "nextRef (init board) = 0" by code_simp
  from ownerId_unvalidated [of "newChip 7 3" "init board" 7] a
  have 1: "map_of (chips (spawnChip (newChip 7 3) (init board))) (combinedId_of 7 3)
             = Some (chipOf 0 7 3)"
    and 2: "score (incrementScore 7 (init board)) = score (init board) @ [(7, NaN)]"
    by (simp_all add: n newChip_def chipOf_def)
  from ownerId_unvalidated [of "newChip 7 3" "init board" 1] b
  have 3: "map fst (score (decrementScore 1 (init board))) = map fst (score (init board))"
    by simp
  from 1 2 3 a b show ?thesis by blast
qed

section \<open>The winner flag\<close>

lemma tickLoop_winner_score:
  "winner s \<Longrightarrow> winner (tickLoop c tr s) \<and> score (tickLoop c tr s) = score s"
proof (induction tr arbitrary: s)
  case Nil
  then show ?case by simp
next
  case (Cons a tr)
  obtain now e where a: "a = (now, e)" by (cases a)
  from Cons.prems have "winner (tick c e s) \<and> score (tick c e s) = score s"
    by (rule tick_winner_score)
  with Cons.IH [of "tick c e s"] Cons.prems show ?case
    by (simp add: a split: option.splits)
qed

lemma startGame_winner_score:
  "winner s \<Longrightarrow> winner (startGame c now0 tr s) \<and> score (startGame c now0 tr s) = score s"
  using tickLoop_winner_score [of "s\<lparr>nextTimestep :=
                  Some (case nextTimestep s of
                          Some t \<Rightarrow> if t \<noteq> 0 then t else now0
                        | None \<Rightarrow> now0)\<rparr>" c tr]
  by (simp add: startGame_def Let_def)

lemma step_winner_score:
  "winner s \<Longrightarrow> winner (step c ev s) \<and> score (step c ev s) = score s"
proof (cases ev)
  case (NewChip i)
  assume "winner s"
  with NewChip show ?thesis by (simp add: onNewChip_def)
next
  case (IntervalFired h)
  assume "winner s"
  with IntervalFired show ?thesis by (simp add: intervalFired_def)
next
  case (StartGame now0 tr)
  assume "winner s"
  with StartGame show ?thesis by (simp add: startGame_winner_score)
next
  case (Immediate now0 tr)
  assume "winner s"
  with Immediate startGame_winner_score [of "s\<lparr>immediates := immediates s - 1\<rparr>" c now0 tr]
  show ?thesis by simp
qed

lemma run_winner_score:
  "winner s \<Longrightarrow> winner (run c evs s) \<and> score (run c evs s) = score s"
proof (induction evs arbitrary: s)
  case Nil
  then show ?case by simp
next
  case (Cons ev evs)
  from Cons.prems have "winner (step c ev s) \<and> score (step c ev s) = score s"
    by (rule step_winner_score)
  with Cons.IH [of "step c ev s"] show ?case by simp
qed

text \<open>
  C5. The winner flag goes only from false to true and never back, and once it is true
  no later collision changes any player's score: every later call of \<open>detectWinner\<close>
  leaves the flag true, every later batch of contacts leaves the score map as it is,
  and so does every later run of events (new chips, bursts of ticks, timer firings).
\<close>

theorem winner_latched:
  "winner s \<Longrightarrow>
     winner (detectWinner s) \<and> score (detectWinner s) = score s
   \<and> winner (onCollisionStart prs s) \<and> score (onCollisionStart prs s) = score s
   \<and> winner (run c evs s) \<and> score (run c evs s) = score s"
  by (simp add: detectWinner_winner onCollisionStart_winner_score run_winner_score)

theorem winner_latched_witness:
  "winner spawned
   \<and> winner (detectWinner spawned) \<and> score (detectWinner spawned) = score spawned
   \<and> winner (onCollisionStart [(PegBody 2, ChipBody (chipOf 1 2 9))] spawned)
   \<and> score (onCollisionStart [(PegBody 2, ChipBody (chipOf 1 2 9))] spawned) = score spawned
   \<and> winner (run board after_win spawned) \<and> score (run board after_win spawned) = score spawned"
proof -
  have w: "winner spawned" by code_simp
  from winner_latched [OF w, of "[(PegBody 2, ChipBody (chipOf 1 2 9))]" board after_win] w
  show ?thesis by simp
qed

section \<open>Peg ownership after a winner\<close>

text \<open>
  C7. For every collision pair whose first body is a peg, the peg's ownerId is
  overwritten with the ownerId of the second body's entity, whatever the winner flag
  and whatever the second body is (for a wall, which has no ownerId, the peg's owner
  becomes \<open>undefined\<close>); no other peg changes. Only the score update is gated on the
  winner flag: with a winner the scores stay, and the peg still changes owner.
\<close>

theorem peg_owner_overwritten:
  "i < length (pegs s) \<Longrightarrow>
     pegs (collisionPair (PegBody i, b) s) = (pegs s)[i := (pegs s ! i)\<lparr>peg_ownerId := ownerId_of s b\<rparr>]
   \<and> peg_ownerId (pegs (collisionPair (PegBody i, b) s) ! i) = ownerId_of s b
   \<and> (winner s \<longrightarrow> score (collisionPair (PegBody i, b) s) = score s)"
  by (cases b) (simp_all add: collisionPair_def Let_def)

theorem peg_owner_overwritten_witness:
  "2 < length (pegs spawned) \<and> winner spawned
   \<and> peg_ownerId (pegs spawned ! 2) = Null
   \<and> peg_ownerId (pegs (collisionPair (PegBody 2, ChipBody (chipOf 1 2 9)) spawned) ! 2) = Owner 2
   \<and> score (collisionPair (PegBody 2, ChipBody (chipOf 1 2 9)) spawned) = score spawned
   \<and> peg_ownerId (pegs (collisionPair (PegBody 2, WallBody LeftWall) spawned) ! 2) = Undefined"
proof -
  have l: "2 < length (pegs spawned)" by code_simp
  have w: "winner spawned" by code_simp
  have n: "peg_ownerId (pegs spawned ! 2) = Null" by code_simp
  from peg_owner_overwritten [OF l, of "ChipBody (chipOf 1 2 9)"] w l
  have 1: "peg_ownerId (pegs (collisionPair (PegBody 2, ChipBody (chipOf 1 2 9)) spawned) ! 2) = Owner 2"
    and 2: "score (collisionPair (PegBody 2, ChipBody (chipOf 1 2 9)) spawned) = score spawned"
    by (simp_all add: chipOf_def)
  from peg_owner_overwritten [OF l, of "WallBody LeftWall"] l
  have 3: "peg_ownerId (pegs (collisionPair (PegBody 2, WallBody LeftWall) spawned) ! 2) = Undefined"
    by simp
  from l w n 1 2 3 show ?thesis by blast
qed

section \<open>The frame counter\<close>

lemma tick_broadcasts:
  "map fst (broadcasts (tick c e s)) = map fst (broadcasts s) @ [frame s + 1]"
  by (simp add: tick_def Let_def generateSnapshot_def broadcastSnapshot_def)

lemma tick_nextTimestep:
  "nextTimestep (tick c e s) = map_option (\<lambda>t. t + TIMESTEP c) (nextTimestep s)"
  by (simp add: tick_def Let_def generateSnapshot_def broadcastSnapshot_def)

lemma tickLoop_frames:
  "frame s \<le> frame (tickLoop c tr s)
   \<and> map fst (broadcasts (tickLoop c tr s))
       = map fst (broadcasts s) @ [frame s + 1 .. frame (tickLoop c tr s)]"
proof (induction tr arbitrary: s)
  case Nil
  then show ?case by simp
next
  case (Cons a tr)
  obtain now e where a: "a = (now, e)" by (cases a)
  show ?case
  proof (cases "\<exists>t. nextTimestep s = Some t \<and> t < now")
    case True
    then have eq: "tickLoop c (a # tr) s = tickLoop c tr (tick c e s)"
      by (auto simp: a)
    from Cons.IH [of "tick c e s"]
    have le: "frame s + 1 \<le> frame (tickLoop c tr (tick c e s))"
      and br: "map fst (broadcasts (tickLoop c tr (tick c e s)))
                 = map fst (broadcasts s) @ [frame s + 1]
                   @ [frame s + 1 + 1 .. frame (tickLoop c tr (tick c e s))]"
      by (simp_all add: tick_frame tick_broadcasts)
    from le have "[frame s + 1 .. frame (tickLoop c tr (tick c e s))]
        = [frame s + 1] @ [frame s + 1 + 1 .. frame (tickLoop c tr (tick c e s))]"
      by (simp add: upto_rec1)
    with le br show ?thesis by (simp add: eq)
  next
    case False
    then have "tickLoop c (a # tr) s = s"
      by (auto simp: a split: option.splits)
    then show ?thesis by simp
  qed
qed

lemma startGame_frames:
  "frame s \<le> frame (startGame c now0 tr s)
   \<and> map fst (broadcasts (startGame c now0 tr s))
       = map fst (broadcasts s) @ [frame s + 1 .. frame (startGame c now0 tr s)]"
  using tickLoop_frames [of "s\<lparr>nextTimestep :=
                  Some (case nextTimestep s of
                          Some t \<Rightarrow> if t \<noteq> 0 then t else now0
                        | None \<Rightarrow> now0)\<rparr>" c tr]
  by (simp add: startGame_def Let_def)

lemma step_frame_mono: "frame s \<le> frame (step c ev s)"
proof (cases ev)
  case (NewChip i)
  then show ?thesis by (simp add: onNewChip_def)
next
  case (IntervalFired h)
  then show ?thesis by (simp add: intervalFired_def)
next
  case (StartGame now0 tr)
  then show ?thesis by (simp add: startGame_frames)
next
  case (Immediate now0 tr)
  with startGame_frames [of "s\<lparr>immediates := immediates s - 1\<rparr>" c now0 tr]
  show ?thesis by simp
qed

lemma run_frame_mono: "frame s \<le> frame (run c evs s)"
proof (induction evs arbitrary: s)
  case Nil
  then show ?case by simp
next
  case (Cons ev evs)
  have "frame s \<le> frame (step c ev s)" by (rule step_frame_mono)
  also have "\<dots> \<le> frame (run c evs (step c ev s))" by (rule Cons.IH)
  finally show ?case by simp
qed


text \<open>
  C6. The frame counter is incremented exactly once per executed tick: a tick adds
  exactly 1. Across a burst of \<open>startGame\<close>, also one that catches up with several
  ticks back to back, the frames broadcast are the consecutive numbers from the old
  frame plus 1 up to the new frame, one per tick, so no number is skipped or repeated.
  The counter never decreases over any run of events.
\<close>

theorem frame_counter:
  "frame (tick c e s) = frame s + 1
   \<and> frame s \<le> frame (startGame c now0 tr s)
   \<and> map fst (broadcasts (startGame c now0 tr s))
       = map fst (broadcasts s) @ [frame s + 1 .. frame (startGame c now0 tr s)]
   \<and> frame s \<le> frame (run c evs s)"
  by (simp add: tick_frame startGame_frames run_frame_mono)

section \<open>The initial state\<close>

lemma array_set_end: "array_set xs (length xs) v = xs @ [v]"
  by (simp add: array_set_def)

lemma createPegs_cols_board:
  "\<exists>ps w. snd (createPegs_cols c row col (i, s)) = s\<lparr>pegs := ps, world := w\<rparr>"
proof (induction c row col "(i, s)" arbitrary: i s rule: createPegs_cols.induct)
  case (1 c row col ident s)
  show ?case
  proof (cases "col < COLS c \<and> \<not> (row mod 2 = 1 \<and> col = COLS c - 1)")
    case True
    with 1 [OF _ _ refl refl refl refl] obtain ps w where
      "snd (createPegs_cols c row (col + 1)
         (ident + 1, s\<lparr>pegs := array_set (pegs s) (nat ident)
              \<lparr>peg_id = ident, peg_ownerId = Null,
                 peg_x = (if row mod 2 = 1 then real_of_int col * COL_SPACING c + HORIZONTAL_OFFSET c
                          else real_of_int col * COL_SPACING c),
                 peg_y = VERTICAL_MARGIN c + real_of_int row * ROW_SPACING c\<rparr>,
            world := world s @ [PegBody (nat ident)]\<rparr>))
       = s\<lparr>pegs := ps, world := w\<rparr>"
      by (auto simp: Let_def)
    with True show ?thesis
      by (subst createPegs_cols.simps) (auto simp: Let_def)
  next
    case False
    have "\<exists>ps w. s = s\<lparr>pegs := ps, world := w\<rparr>"
      by (rule exI [of _ "pegs s"], rule exI [of _ "world s"]) simp
    with False show ?thesis
      by (subst createPegs_cols.simps) (auto simp: Let_def)
  qed
qed

lemma createPegs_cols_indexed:
  "pegs_indexed (i, s) \<Longrightarrow> pegs_indexed (createPegs_cols c row col (i, s))"
proof (induction c row col "(i, s)" arbitrary: i s rule: createPegs_cols.induct)
  case (1 c row col ident s)
  show ?case
  proof (cases "col < COLS c \<and> \<not> (row mod 2 = 1 \<and> col = COLS c - 1)")
    case True
    let ?p = "\<lparr>peg_id = ident, peg_ownerId = Null,
                 peg_x = (if row mod 2 = 1 then real_of_int col * COL_SPACING c + HORIZONTAL_OFFSET c
                          else real_of_int col * COL_SPACING c),
                 peg_y = VERTICAL_MARGIN c + real_of_int row * ROW_SPACING c\<rparr>"
    let ?s = "s\<lparr>pegs := array_set (pegs s) (nat ident) ?p, world := world s @ [PegBody (nat ident)]\<rparr>"
    from "1.prems" have "pegs_indexed (ident + 1, ?s)"
      by (simp add: pegs_indexed_def array_set_end)
    with True "1.hyps" [OF _ _ refl refl refl refl] have "pegs_indexed (createPegs_cols c row (col + 1) (ident + 1, ?s))"
      by (auto simp: Let_def)
    with True show ?thesis
      by (subst createPegs_cols.simps) (auto simp: Let_def)
  next
    case False
    with "1.prems" show ?thesis
      by (subst createPegs_cols.simps) (auto simp: Let_def)
  qed
qed

lemma createPegs_rows_board:
  "\<exists>ps w. snd (createPegs_rows c row (i, s)) = s\<lparr>pegs := ps, world := w\<rparr>"
proof (induction c row "(i, s)" arbitrary: i s rule: createPegs_rows.induct)
  case (1 c row i s)
  show ?case
  proof (cases "row < ROWS c")
    case True
    obtain j t where jt: "createPegs_cols c row 1 (i, s) = (j, t)"
      by (cases "createPegs_cols c row 1 (i, s)")
    from createPegs_cols_board [of c row 1 i s] obtain ps w where
      t: "t = s\<lparr>pegs := ps, world := w\<rparr>" by (auto simp: jt)
    from 1 [OF True jt] obtain ps' w' where
      "snd (createPegs_rows c (row + 1) (j, t)) = t\<lparr>pegs := ps', world := w'\<rparr>" by blast
    with True jt t show ?thesis
      by (subst createPegs_rows.simps) auto
  next
    case False
    have "\<exists>ps w. s = s\<lparr>pegs := ps, world := w\<rparr>"
      by (rule exI [of _ "pegs s"], rule exI [of _ "world s"]) simp
    with False show ?thesis
      by (subst createPegs_rows.simps) auto
  qed
qed

lemma createPegs_rows_indexed:
  "pegs_indexed p \<Longrightarrow> pegs_indexed (createPegs_rows c row p)"
proof (induction c row p rule: createPegs_rows.induct)
  case (1 c row p)
  show ?case
  proof (cases "row < ROWS c")
    case True
    from "1.prems" have "pegs_indexed (createPegs_cols c row 1 p)"
      by (cases p) (simp add: createPegs_cols_indexed)
    from "1.IH" [OF True this] True show ?thesis
      by (subst createPegs_rows.simps) simp
  next
    case False
    with "1.prems" show ?thesis
      by (subst createPegs_rows.simps) simp
  qed
qed

lemma createPegs_board: "\<exists>ps w. createPegs c s = s\<lparr>pegs := ps, world := w\<rparr>"
  using createPegs_rows_board [of c 0 0 s] by (simp add: createPegs_def)

lemma createPegs_indexed:
  "pegs s = [] \<Longrightarrow> map peg_id (pegs (createPegs c s)) = map int [0 ..< length (pegs (createPegs c s))]"
  using createPegs_rows_indexed [of "(0, s)" c 0]
  by (simp add: createPegs_def pegs_indexed_def)

lemma init_board: "\<exists>ps w. init c = (initializeScore c constructor)\<lparr>pegs := ps, world := w\<rparr>"
proof -
  let ?s0 = "initializeScore c (constructor\<lparr>chips := [], pegs := [], winner := False\<rparr>)"
  have s0: "?s0 = initializeScore c constructor"
    by (simp add: constructor_def initializeScore_def)
  obtain ps w where "createPegs c (createBucketWalls c (createWalls ?s0))
      = (createBucketWalls c (createWalls ?s0))\<lparr>pegs := ps, world := w\<rparr>"
    using createPegs_board by blast
  then have "init c = (initializeScore c constructor)\<lparr>pegs := ps,
      world := w @ map (\<lambda>k. WallBody (Triangle k)) [0 ..< 6]\<rparr>"
    by (simp add: init_def createEnvironment_def createTriangles_def createBucketWalls_def
        createWalls_def s0)
  then show ?thesis by blast
qed

lemma init_peg_ids: "map peg_id (pegs (init c)) = map int [0 ..< length (pegs (init c))]"
proof -
  let ?s = "createBucketWalls c (createWalls
       (initializeScore c (constructor\<lparr>chips := [], pegs := [], winner := False\<rparr>)))"
  have "pegs ?s = []"
    by (simp add: createBucketWalls_def createWalls_def initializeScore_def)
  from createPegs_indexed [OF this, of c] show ?thesis
    by (simp add: init_def createEnvironment_def createTriangles_def)
qed

lemma init_decay_inv: "decay_inv c (init c)"
proof -
  obtain ps w where "init c = (initializeScore c constructor)\<lparr>pegs := ps, world := w\<rparr>"
    using init_board by blast
  then show ?thesis
    by (simp add: decay_inv_def initializeScore_def constructor_def)
qed

lemma init_fields:
  "frame (init c) = 0" "timers (init c) = []" "targetScore (init c) = TARGET_SCORE c"
  "\<not> targetScoreInterval (init c)" "chips (init c) = []" "\<not> winner (init c)"
  "score (init c) = [(0, Num 0), (1, Num 0), (2, Num 0), (3, Num 0)]"
  "inputBuffer (init c) = []" "broadcasts (init c) = []" "loop (init c) = None"
proof -
  obtain ps w where i: "init c = (initializeScore c constructor)\<lparr>pegs := ps, world := w\<rparr>"
    using init_board by blast
  show "frame (init c) = 0" "timers (init c) = []" "targetScore (init c) = TARGET_SCORE c"
    "\<not> targetScoreInterval (init c)" "chips (init c) = []" "\<not> winner (init c)"
    "score (init c) = [(0, Num 0), (1, Num 0), (2, Num 0), (3, Num 0)]"
    "inputBuffer (init c) = []" "broadcasts (init c) = []" "loop (init c) = None"
    by (simp_all add: i initializeScore_def constructor_def)
qed

theorem frame_counter_witness:
  "frame (tick board (still []) (init board)) = 1
   \<and> frame (startGame board 100 [(101, still []), (117, still []), (118, still [])] (init board)) = 2
   \<and> map fst (broadcasts (startGame board 100 [(101, still []), (117, still []), (118, still [])] (init board))) = [1, 2]"
proof -
  have f: "frame (init board) = 0" by (rule init_fields)
  have b: "broadcasts (init board) = []" by (rule init_fields)
  have e: "frame (startGame board 100 [(101, still []), (117, still []), (118, still [])] (init board)) = 2"
    by code_simp
  have u: "[1 .. 2] = [1, 2::int]" by code_simp
  from frame_counter [of board "still []" "init board" 100 "[(101, still []), (117, still []), (118, still [])]" "[]"]
  show ?thesis by (simp add: f b e u)
qed


section \<open>The decay timer of the target score\<close>

lemma tick_timer_fields:
  "loop (tick c e s) = loop s"
  "targetScore (tick c e s) = targetScore s"
  "targetScoreInterval (tick c e s)"
  "loop s = None \<Longrightarrow>
     timers (tick c e s) = (if targetScoreInterval s then timers s else timers s @ [nextTimer s])"
  by (simp_all add: tick_def Let_def generateSnapshot_def broadcastSnapshot_def detectWinner_timers)

lemma tick_decay_inv: "decay_inv c s \<Longrightarrow> decay_inv c (tick c e s) \<and> 0 < frame (tick c e s)"
  by (auto simp: decay_inv_def tick_frame tick_timer_fields split: if_splits)

lemma tick_targetScore: "targetScore (tick c e s) = targetScore s"
  by (rule tick_timer_fields)

lemma tickLoop_decay_inv:
  "decay_inv c s \<Longrightarrow>
     decay_inv c (tickLoop c tr s) \<and> targetScore (tickLoop c tr s) = targetScore s"
proof (induction tr arbitrary: s)
  case Nil
  then show ?case by simp
next
  case (Cons a tr)
  obtain now e where a: "a = (now, e)" by (cases a)
  from Cons.prems have "decay_inv c (tick c e s)" by (simp add: tick_decay_inv)
  from Cons.IH [OF this] Cons.prems show ?case
    by (simp add: a tick_targetScore split: option.splits)
qed

lemma decay_inv_nextTimestep [simp]: "decay_inv c (s\<lparr>nextTimestep := t\<rparr>) = decay_inv c s"
  by (simp add: decay_inv_def)

lemma decay_inv_immediates [simp]: "decay_inv c (s\<lparr>immediates := n\<rparr>) = decay_inv c s"
  by (simp add: decay_inv_def)

lemma startGame_decay_inv:
  "decay_inv c s \<Longrightarrow>
     decay_inv c (startGame c now0 tr s) \<and> targetScore (startGame c now0 tr s) = targetScore s"
  using tickLoop_decay_inv [of c "s\<lparr>nextTimestep :=
                  Some (case nextTimestep s of
                          Some t \<Rightarrow> if t \<noteq> 0 then t else now0
                        | None \<Rightarrow> now0)\<rparr>" tr]
  by (simp add: startGame_def Let_def)

lemma step_decay_inv:
  "decay_inv c s \<Longrightarrow>
     decay_inv c (step c ev s)
   \<and> targetScore (step c ev s)
       = (if ev = IntervalFired 0 \<and> 0 < frame s then targetScore s - 1 else targetScore s)"
proof (cases ev)
  case (NewChip i)
  assume "decay_inv c s"
  with NewChip show ?thesis by (simp add: onNewChip_def decay_inv_def)
next
  case (IntervalFired h)
  assume "decay_inv c s"
  with IntervalFired show ?thesis
    by (auto simp: intervalFired_def decay_inv_def split: if_splits)
next
  case (StartGame now0 tr)
  assume "decay_inv c s"
  with StartGame show ?thesis by (simp add: startGame_decay_inv)
next
  case (Immediate now0 tr)
  assume "decay_inv c s"
  with Immediate startGame_decay_inv [of c "s\<lparr>immediates := immediates s - 1\<rparr>" now0 tr]
  show ?thesis by simp
qed

lemma run_decay_inv: "decay_inv c s \<Longrightarrow> decay_inv c (run c evs s)"
proof (induction evs arbitrary: s)
  case Nil
  then show ?case by simp
next
  case (Cons ev evs)
  from Cons.prems have "decay_inv c (step c ev s)" by (simp add: step_decay_inv)
  from Cons.IH [OF this] show ?case by simp
qed

lemma run_targetScore:
  "decay_inv c s \<Longrightarrow> 0 < frame s \<Longrightarrow>
     targetScore (run c evs s) = targetScore s - int (count_list evs (IntervalFired 0))"
proof (induction evs arbitrary: s)
  case Nil
  then show ?case by simp
next
  case (Cons ev evs)
  from Cons.prems have i: "decay_inv c (step c ev s)" by (simp add: step_decay_inv)
  from Cons.prems step_frame_mono [of s c ev] have f: "0 < frame (step c ev s)" by simp
  from Cons.prems have "targetScore (step c ev s)
       = (if ev = IntervalFired 0 then targetScore s - 1 else targetScore s)"
    by (simp add: step_decay_inv)
  with Cons.IH [OF i f] show ?case by simp
qed

text \<open>
  C9. The decay timer is started exactly once, on the first tick after \<open>init()\<close>, and
  is never restarted or duplicated: after \<open>init()\<close> there is no timer; in every state
  reached from there, there is exactly one live timer if a tick has run (the frame is
  positive) and none otherwise, and one more tick leaves exactly that one timer. The
  target score starts at the constant and keeps it while no tick has run; from then on
  each firing of the timer takes 1 from it, so that N firings after the first tick
  leave the constant minus N, with no floor.
\<close>

theorem decay_timer_started_once:
  "timers (init c) = [] \<and> targetScore (init c) = TARGET_SCORE c
   \<and> timers (run c evs (init c)) = (if 0 < frame (run c evs (init c)) then [0] else [])
   \<and> timers (tick c e (run c evs (init c))) = [0]
   \<and> (frame (run c evs (init c)) = 0 \<longrightarrow> targetScore (run c evs (init c)) = TARGET_SCORE c)
   \<and> (0 < frame (run c evs (init c)) \<longrightarrow>
        targetScore (run c evs' (run c evs (init c)))
          = targetScore (run c evs (init c)) - int (count_list evs' (IntervalFired 0)))
   \<and> targetScore (run c evs' (tick c e (init c)))
        = TARGET_SCORE c - int (count_list evs' (IntervalFired 0))"
proof -
  have inv: "decay_inv c (run c evs (init c))"
    by (simp add: run_decay_inv init_decay_inv)
  from tick_decay_inv [OF inv, of e] have one: "timers (tick c e (run c evs (init c))) = [0]"
    by (simp add: decay_inv_def)
  from tick_decay_inv [OF init_decay_inv, of c e]
  have "targetScore (run c evs' (tick c e (init c)))
          = targetScore (tick c e (init c)) - int (count_list evs' (IntervalFired 0))"
    by (simp add: run_targetScore)
  then have first: "targetScore (run c evs' (tick c e (init c)))
          = TARGET_SCORE c - int (count_list evs' (IntervalFired 0))"
    by (simp add: tick_targetScore init_fields)
  from inv one first show ?thesis
    by (auto simp: init_fields run_targetScore decay_inv_def split: if_splits)
qed

theorem decay_timer_started_once_witness:
  "timers (init board) = [] \<and> targetScore (init board) = 2
   \<and> frame (run board burst2 (init board)) = 2
   \<and> timers (run board burst2 (init board)) = [0]
   \<and> timers (tick board (still []) (run board burst2 (init board))) = [0]
   \<and> frame (run board [NewChip (newChip 1 1), IntervalFired 0] (init board)) = 0
   \<and> targetScore (run board [NewChip (newChip 1 1), IntervalFired 0] (init board)) = 2
   \<and> targetScore (run board [IntervalFired 0, IntervalFired 0, IntervalFired 0]
                      (run board burst2 (init board))) = - 1"
proof -
  have f2: "frame (run board burst2 (init board)) = 2" by code_simp
  have f0: "frame (run board [NewChip (newChip 1 1), IntervalFired 0] (init board)) = 0" by code_simp
  have cnt: "count_list [IntervalFired 0, IntervalFired 0, IntervalFired 0] (IntervalFired 0) = 3"
    by simp
  have tb: "TARGET_SCORE board = 2" by (simp add: board_def)
  from decay_timer_started_once [of board burst2 "still []" "[IntervalFired 0, IntervalFired 0, IntervalFired 0]"]
  have a: "timers (init board) = [] \<and> targetScore (init board) = 2
   \<and> timers (run board burst2 (init board)) = [0]
   \<and> timers (tick board (still []) (run board burst2 (init board))) = [0]
   \<and> targetScore (run board [IntervalFired 0, IntervalFired 0, IntervalFired 0]
                      (run board burst2 (init board))) = targetScore (run board burst2 (init board)) - 3"
    by (simp add: f2 tb cnt del: run.simps)
  have t2: "targetScore (run board burst2 (init board)) = 2" by code_simp
  from decay_timer_started_once [of board "[NewChip (newChip 1 1), IntervalFired 0]" "still []" "[]"]
  have b: "targetScore (run board [NewChip (newChip 1 1), IntervalFired 0] (init board)) = 2"
    by (simp add: f0 tb del: run.simps)
  from a b f2 f0 t2 show ?thesis by simp
qed

section \<open>Snapshots of the pegs\<close>

lemma tick_length_pegs: "length (pegs (tick c e s)) = length (pegs s)"
  using tick_peg_ids [of c e s] by (metis length_map)

lemma tick_broadcasts_full:
  "\<exists>snap. broadcasts (tick c e s) = broadcasts s @ [(frame s + 1, snap)]
     \<and> map pi_id (snap_pegs snap) = map peg_id (pegs (tick c e s))"
  by (simp add: tick_def Let_def generateSnapshot_def broadcastSnapshot_def comp_def)

lemma tick_snapshots_ok: "snapshots_ok s \<Longrightarrow> snapshots_ok (tick c e s)"
proof -
  assume a: "snapshots_ok s"
  obtain snap where b: "broadcasts (tick c e s) = broadcasts s @ [(frame s + 1, snap)]"
    and p: "map pi_id (snap_pegs snap) = map peg_id (pegs (tick c e s))"
    using tick_broadcasts_full by blast
  from a show ?thesis
    by (simp add: snapshots_ok_def b p tick_peg_ids tick_length_pegs)
qed

lemma tickLoop_snapshots_ok: "snapshots_ok s \<Longrightarrow> snapshots_ok (tickLoop c tr s)"
proof (induction tr arbitrary: s)
  case Nil
  then show ?case by simp
next
  case (Cons a tr)
  obtain now e where a: "a = (now, e)" by (cases a)
  from Cons.prems have "snapshots_ok (tick c e s)" by (rule tick_snapshots_ok)
  from Cons.IH [OF this] Cons.prems show ?case
    by (simp add: a split: option.splits)
qed

lemma snapshots_ok_update [simp]:
  "snapshots_ok (s\<lparr>nextTimestep := t\<rparr>) = snapshots_ok s"
  "snapshots_ok (s\<lparr>immediates := n\<rparr>) = snapshots_ok s"
  "snapshots_ok (s\<lparr>inputBuffer := b\<rparr>) = snapshots_ok s"
  "snapshots_ok (s\<lparr>targetScore := ts\<rparr>) = snapshots_ok s"
  by (simp_all add: snapshots_ok_def)

lemma startGame_snapshots_ok: "snapshots_ok s \<Longrightarrow> snapshots_ok (startGame c now0 tr s)"
  using tickLoop_snapshots_ok [of "s\<lparr>nextTimestep :=
                  Some (case nextTimestep s of
                          Some t \<Rightarrow> if t \<noteq> 0 then t else now0
                        | None \<Rightarrow> now0)\<rparr>" c tr]
  by (simp add: startGame_def Let_def)

lemma step_snapshots_ok: "snapshots_ok s \<Longrightarrow> snapshots_ok (step c ev s)"
  by (cases ev) (simp_all add: onNewChip_def intervalFired_def startGame_snapshots_ok)

lemma run_snapshots_ok: "snapshots_ok s \<Longrightarrow> snapshots_ok (run c evs s)"
  by (induction evs arbitrary: s) (simp_all add: step_snapshots_ok)

lemma init_snapshots_ok: "snapshots_ok (init c)"
  using init_peg_ids [of c] by (simp add: snapshots_ok_def init_fields)

lemma sorted_upt_int: "sorted_wrt (<) (map int [0 ..< n])"
  by (simp add: sorted_wrt_map)


text \<open>
  C10. Every snapshot lists the pegs in ascending order of their ids, each entry made of
  exactly the id and the ownerId of its peg, and building it changes nothing: the
  method returns the state it was given. In every state reached from \<open>init()\<close> the
  peg ids of a snapshot of the current state are 0, 1, 2 and so on in this order,
  strictly ascending, and so are those of every snapshot broadcast so far.
\<close>

theorem snapshot_pegs_ascending:
  "snd (generateSnapshot chs pgs sc w t s) = s
   \<and> snap_pegs (fst (generateSnapshot chs pgs sc w t s))
       = map (\<lambda>p. \<lparr>pi_id = peg_id p, pi_ownerId = peg_ownerId p\<rparr>) pgs
   \<and> (let r = run c evs (init c);
           ids = map pi_id (snap_pegs (fst (generateSnapshot (chips r) (pegs r) (score r)
                   (winner r) (targetScore r) r)))
       in ids = map int [0 ..< length (pegs r)] \<and> sorted_wrt (<) ids
          \<and> list_all (\<lambda>b. map pi_id (snap_pegs (snd b)) = map int [0 ..< length (pegs r)]
                            \<and> sorted_wrt (<) (map pi_id (snap_pegs (snd b))))
               (broadcasts r))"
proof -
  have ok: "snapshots_ok (run c evs (init c))"
    by (simp add: run_snapshots_ok init_snapshots_ok)
  then have "list_all (\<lambda>b. map pi_id (snap_pegs (snd b))
                 = map int [0 ..< length (pegs (run c evs (init c)))]
               \<and> sorted_wrt (<) (map pi_id (snap_pegs (snd b))))
             (broadcasts (run c evs (init c)))"
    by (auto simp: snapshots_ok_def list_all_iff sorted_upt_int)
  with ok show ?thesis
    by (simp add: generateSnapshot_def Let_def comp_def snapshots_ok_def sorted_upt_int)
qed

theorem snapshot_pegs_ascending_witness:
  "snap_pegs (fst (generateSnapshot (chips spawned) (pegs spawned) (score spawned) (winner spawned)
       (targetScore spawned) spawned))
     = [\<lparr>pi_id = 0, pi_ownerId = Owner 1\<rparr>, \<lparr>pi_id = 1, pi_ownerId = Owner 1\<rparr>,
        \<lparr>pi_id = 2, pi_ownerId = Null\<rparr>]
   \<and> map (\<lambda>b. map pi_id (snap_pegs (snd b))) (broadcasts spawned) = [[0, 1, 2], [0, 1, 2]]"
proof -
  have s: "spawned = run board ([NewChip (newChip 1 5),
                StartGame 100 [(101, still [(PegBody 0, ChipBody (chipOf 0 1 5)),
                                            (PegBody 1, ChipBody (chipOf 0 1 5))])]]
               @ [NewChip (newChip 2 9), Immediate 120 [(121, still [])]]) (init board)"
    by (simp add: spawned_def won_def)
  have p: "map (\<lambda>p. \<lparr>pi_id = peg_id p, pi_ownerId = peg_ownerId p\<rparr>) (pegs spawned)
     = [\<lparr>pi_id = 0, pi_ownerId = Owner 1\<rparr>, \<lparr>pi_id = 1, pi_ownerId = Owner 1\<rparr>,
        \<lparr>pi_id = 2, pi_ownerId = Null\<rparr>]"
    by code_simp
  have l: "length (broadcasts spawned) = 2" by code_simp
  have n: "map int [0 ..< length (pegs spawned)] = [0, 1, 2]" by code_simp
  from snapshot_pegs_ascending [of "chips spawned" "pegs spawned" "score spawned" "winner spawned"
      "targetScore spawned" spawned board "[NewChip (newChip 1 5),
                StartGame 100 [(101, still [(PegBody 0, ChipBody (chipOf 0 1 5)),
                                            (PegBody 1, ChipBody (chipOf 0 1 5))])]]
               @ [NewChip (newChip 2 9), Immediate 120 [(121, still [])]]"]
  have a: "snap_pegs (fst (generateSnapshot (chips spawned) (pegs spawned) (score spawned) (winner spawned)
       (targetScore spawned) spawned))
     = map (\<lambda>p. \<lparr>pi_id = peg_id p, pi_ownerId = peg_ownerId p\<rparr>) (pegs spawned)"
    and b: "list_all (\<lambda>b. map pi_id (snap_pegs (snd b)) = map int [0 ..< length (pegs spawned)])
        (broadcasts spawned)"
    unfolding s [symmetric] by (auto simp: Let_def list_all_iff)
  from b l have "map (\<lambda>b. map pi_id (snap_pegs (snd b))) (broadcasts spawned) = [[0, 1, 2], [0, 1, 2]]"
    by (auto simp: n list_all_iff length_Suc_conv numeral_2_eq_2)
  with a p show ?thesis by simp
qed

section \<open>Despawning at the ground\<close>

lemma list_all_delete: "list_all P al \<Longrightarrow> list_all P (AList.delete k al)"
  by (induction al) auto

lemma list_all_update: "list_all P al \<Longrightarrow> P (k, v) \<Longrightarrow> list_all P (AList.update k v al)"
  by (induction al) auto

lemma map_of_delete_None: "map_of al k = None \<Longrightarrow> map_of (AList.delete k' al) k = None"
  by (simp add: delete_conv')

lemma collisionPair_chips:
  "chips (collisionPair pr s) = chips s \<or> (\<exists>k. chips (collisionPair pr s) = AList.delete k (chips s))"
  by (cases pr; cases "fst pr"; cases "snd pr"; simp add: collisionPair_def Let_def; blast)

lemma collisionPair_world:
  "world (collisionPair pr s) = world s \<or> (\<exists>b. world (collisionPair pr s) = removeAll b (world s))"
  by (cases pr; cases "fst pr"; cases "snd pr"; simp add: collisionPair_def Let_def; blast)

lemma collisionPair_chips_keyed: "chips_keyed s \<Longrightarrow> chips_keyed (collisionPair pr s)"
  using collisionPair_chips [of pr s] by (auto simp: chips_keyed_def list_all_delete)

lemma collisionPair_key_absent:
  "map_of (chips s) k = None \<Longrightarrow> map_of (chips (collisionPair pr s)) k = None"
  using collisionPair_chips [of pr s] by (auto simp: map_of_delete_None)

lemma collisionPair_body_absent:
  "b \<notin> set (world s) \<Longrightarrow> b \<notin> set (world (collisionPair pr s))"
  using collisionPair_world [of pr s] by auto

lemma onCollisionStart_chips_keyed: "chips_keyed s \<Longrightarrow> chips_keyed (onCollisionStart prs s)"
  by (induction prs arbitrary: s) (simp_all add: collisionPair_chips_keyed)

lemma onCollisionStart_key_absent:
  "map_of (chips s) k = None \<Longrightarrow> map_of (chips (onCollisionStart prs s)) k = None"
  by (induction prs arbitrary: s) (simp_all add: collisionPair_key_absent)

lemma onCollisionStart_body_absent:
  "b \<notin> set (world s) \<Longrightarrow> b \<notin> set (world (onCollisionStart prs s))"
  by (induction prs arbitrary: s) (simp_all add: collisionPair_body_absent)

lemma ground_pair:
  "world (collisionPair (GroundBody, ChipBody c) s) = removeAll (ChipBody c) (world s)"
  "chips (collisionPair (GroundBody, ChipBody c) s)
     = AList.delete (combinedId_of (chip_ownerId c) (chip_id c)) (chips s)"
  by (simp_all add: collisionPair_def Let_def combinedId_of_def)

lemma ground_batch:
  "(GroundBody, ChipBody c) \<in> set prs \<Longrightarrow>
     ChipBody c \<notin> set (world (onCollisionStart prs s))
   \<and> map_of (chips (onCollisionStart prs s)) (combinedId_of (chip_ownerId c) (chip_id c)) = None"
proof (induction prs arbitrary: s)
  case Nil
  then show ?case by simp
next
  case (Cons p prs)
  show ?case
  proof (cases "p = (GroundBody, ChipBody c)")
    case True
    have "ChipBody c \<notin> set (world (collisionPair p s))"
      by (simp add: True ground_pair)
    moreover have "map_of (chips (collisionPair p s)) (combinedId_of (chip_ownerId c) (chip_id c)) = None"
      by (simp add: True ground_pair delete_conv')
    ultimately show ?thesis
      by (simp add: onCollisionStart_body_absent onCollisionStart_key_absent)
  next
    case False
    with Cons.prems have "(GroundBody, ChipBody c) \<in> set prs" by simp
    from Cons.IH [OF this, of "collisionPair p s"] show ?thesis by simp
  qed
qed

lemma keyed_absent:
  assumes "list_all (\<lambda>kc. fst kc = combinedId_of (chip_ownerId (snd kc)) (chip_id (snd kc))) al"
    and "map_of al (combinedId_of ow i) = None"
  shows "\<not> list_ex (\<lambda>d. chip_id d = i \<and> chip_ownerId d = ow) (map snd al)"
proof
  assume "list_ex (\<lambda>d. chip_id d = i \<and> chip_ownerId d = ow) (map snd al)"
  then obtain k d where m: "(k, d) \<in> set al" and d: "chip_id d = i" "chip_ownerId d = ow"
    by (auto simp: list_ex_iff)
  from assms(1) m have "k = combinedId_of (chip_ownerId d) (chip_id d)"
    by (auto simp: list_all_iff)
  with d m have "combinedId_of ow i \<in> fst ` set al" by force
  with assms(2) show False by (simp add: map_of_eq_None_iff)
qed

lemma snapshot_absent:
  assumes "list_all (\<lambda>kc. fst kc = combinedId_of (chip_ownerId (snd kc)) (chip_id (snd kc))) chs"
    and "map_of chs (combinedId_of ow i) = None"
  shows "\<not> list_ex (\<lambda>ci. ci_id ci = i \<and> ci_ownerId ci = ow)
             (snap_chips (fst (generateSnapshot chs pgs sc w t s)))"
  using keyed_absent [OF assms]
  by (simp add: generateSnapshot_def Let_def list_ex_iff)

lemma spawnChip_chips_keyed: "chips_keyed s \<Longrightarrow> chips_keyed (spawnChip i s)"
  by (simp add: chips_keyed_def spawnChip_def Let_def list_all_update combinedId_of_def)

lemma chips_keyed_update [simp]:
  "chips_keyed (s\<lparr>inputBuffer := b\<rparr>) = chips_keyed s"
  "chips_keyed (s\<lparr>frame := f\<rparr>) = chips_keyed s"
  "chips_keyed (s\<lparr>positions := ps\<rparr>) = chips_keyed s"
  "chips_keyed (s\<lparr>nextTimestep := t\<rparr>) = chips_keyed s"
  "chips_keyed (s\<lparr>immediates := n\<rparr>) = chips_keyed s"
  "chips_keyed (s\<lparr>targetScore := ts\<rparr>) = chips_keyed s"
  by (simp_all add: chips_keyed_def)

lemma processInputBuffer_chips_keyed: "chips_keyed s \<Longrightarrow> chips_keyed (processInputBuffer s)"
proof (induction s rule: processInputBuffer.induct)
  case (1 s)
  show ?case
  proof (cases "inputBuffer s")
    case Nil
    with "1.prems" show ?thesis by (subst processInputBuffer.simps) simp
  next
    case (Cons i rest)
    from "1.prems" have "chips_keyed (spawnChip i (s\<lparr>inputBuffer := rest\<rparr>))"
      by (simp add: spawnChip_chips_keyed)
    from "1.IH" [OF Cons this] Cons show ?thesis
      by (subst processInputBuffer.simps) simp
  qed
qed

lemma before_update_chips_keyed: "chips_keyed s \<Longrightarrow> chips_keyed (before_update s)"
  by (simp add: before_update_def processInputBuffer_chips_keyed)

lemma tick_chips_world:
  "chips (tick c e s) = chips (Engine_update e (before_update s))"
  "world (tick c e s) = world (Engine_update e (before_update s))"
  by (simp_all add: tick_def Let_def before_update_def generateSnapshot_def broadcastSnapshot_def)

lemma tick_last_snapshot:
  "snap_chips (snd (last (broadcasts (tick c e s))))
     = snap_chips (fst (generateSnapshot (chips (tick c e s)) (pegs (tick c e s)) (score (tick c e s))
         (winner (tick c e s)) (targetScore (tick c e s)) (tick c e s)))"
  by (simp add: tick_def Let_def generateSnapshot_def broadcastSnapshot_def)

lemma Engine_update_chips_keyed: "chips_keyed s \<Longrightarrow> chips_keyed (Engine_update e s)"
  by (simp add: Engine_update_def onCollisionStart_chips_keyed)

lemma Engine_update_ground:
  "(GroundBody, ChipBody c) \<in> set (pairs e) \<Longrightarrow>
     ChipBody c \<notin> set (world (Engine_update e s))
   \<and> map_of (chips (Engine_update e s)) (combinedId_of (chip_ownerId c) (chip_id c)) = None"
  by (simp add: Engine_update_def ground_batch)

lemma tick_chips_keyed: "chips_keyed s \<Longrightarrow> chips_keyed (tick c e s)"
  using Engine_update_chips_keyed [OF before_update_chips_keyed, of s e]
  by (simp add: chips_keyed_def tick_chips_world)

lemma tick_ground:
  assumes "chips_keyed s" and "(GroundBody, ChipBody c) \<in> set (pairs e)"
  shows "ChipBody c \<notin> set (world (tick k e s))"
    and "map_of (chips (tick k e s)) (combinedId_of (chip_ownerId c) (chip_id c)) = None"
    and "\<not> list_ex (\<lambda>ci. ci_id ci = chip_id c \<and> ci_ownerId ci = chip_ownerId c)
             (snap_chips (snd (last (broadcasts (tick k e s)))))"
proof -
  from Engine_update_ground [OF assms(2), of "before_update s"]
  show w: "ChipBody c \<notin> set (world (tick k e s))"
    and m: "map_of (chips (tick k e s)) (combinedId_of (chip_ownerId c) (chip_id c)) = None"
    by (simp_all add: tick_chips_world)
  from tick_chips_keyed [OF assms(1), of k e]
  have "list_all (\<lambda>kc. fst kc = combinedId_of (chip_ownerId (snd kc)) (chip_id (snd kc)))
          (chips (tick k e s))"
    by (simp add: chips_keyed_def)
  from snapshot_absent [OF this m]
  show "\<not> list_ex (\<lambda>ci. ci_id ci = chip_id c \<and> ci_ownerId ci = chip_ownerId c)
             (snap_chips (snd (last (broadcasts (tick k e s)))))"
    by (simp add: tick_last_snapshot)
qed

lemma tickLoop_chips_keyed: "chips_keyed s \<Longrightarrow> chips_keyed (tickLoop c tr s)"
proof (induction tr arbitrary: s)
  case Nil
  then show ?case by simp
next
  case (Cons a tr)
  obtain now e where a: "a = (now, e)" by (cases a)
  from Cons.prems have "chips_keyed (tick c e s)" by (rule tick_chips_keyed)
  from Cons.IH [OF this] Cons.prems show ?case
    by (simp add: a split: option.splits)
qed

lemma startGame_chips_keyed: "chips_keyed s \<Longrightarrow> chips_keyed (startGame c now0 tr s)"
  using tickLoop_chips_keyed [of "s\<lparr>nextTimestep :=
                  Some (case nextTimestep s of
                          Some t \<Rightarrow> if t \<noteq> 0 then t else now0
                        | None \<Rightarrow> now0)\<rparr>" c tr]
  by (simp add: startGame_def Let_def)

lemma step_chips_keyed: "chips_keyed s \<Longrightarrow> chips_keyed (step c ev s)"
  by (cases ev) (simp_all add: onNewChip_def intervalFired_def startGame_chips_keyed)

lemma run_chips_keyed: "chips_keyed s \<Longrightarrow> chips_keyed (run c evs s)"
  by (induction evs arbitrary: s) (simp_all add: step_chips_keyed)

lemma reachable_chips_keyed: "chips_keyed (run c evs (init c))"
  by (rule run_chips_keyed) (simp add: chips_keyed_def init_fields)


text \<open>
  C8. For every contact of the ground with a chip, the chip is despawned, whatever the
  winner flag (the state is any state whose registry stores every chip under its
  combined id, as every reachable state does): after the batch of contacts the chip's
  body is not in the world of the engine and the registry has no entry under the
  chip's combined id; the same holds after the tick whose update reports the contact,
  and the snapshot built in that tick has no chip with this id and owner.
\<close>

theorem ground_contact_despawns:
  "chips_keyed s \<Longrightarrow> (GroundBody, ChipBody c) \<in> set prs \<Longrightarrow>
     ChipBody c \<notin> set (world (onCollisionStart prs s))
   \<and> map_of (chips (onCollisionStart prs s)) (combinedId_of (chip_ownerId c) (chip_id c)) = None
   \<and> ChipBody c \<notin> set (world (tick k (e\<lparr>pairs := prs\<rparr>) s))
   \<and> map_of (chips (tick k (e\<lparr>pairs := prs\<rparr>) s)) (combinedId_of (chip_ownerId c) (chip_id c)) = None
   \<and> \<not> list_ex (\<lambda>ci. ci_id ci = chip_id c \<and> ci_ownerId ci = chip_ownerId c)
         (snap_chips (snd (last (broadcasts (tick k (e\<lparr>pairs := prs\<rparr>) s)))))"
  using ground_batch [of c prs s] tick_ground [of s c "e\<lparr>pairs := prs\<rparr>" k]
  by simp

theorem ground_contact_despawns_witness:
  "chips_keyed spawned \<and> winner spawned
   \<and> ChipBody (chipOf 1 2 9) \<in> set (world spawned)
   \<and> map_of (chips spawned) (combinedId_of 2 9) = Some (chipOf 1 2 9)
   \<and> ChipBody (chipOf 1 2 9) \<notin> set (world (onCollisionStart [(GroundBody, ChipBody (chipOf 1 2 9))] spawned))
   \<and> map_of (chips (onCollisionStart [(GroundBody, ChipBody (chipOf 1 2 9))] spawned)) (combinedId_of 2 9) = None
   \<and> ChipBody (chipOf 1 2 9) \<notin> set (world (tick board (still [(GroundBody, ChipBody (chipOf 1 2 9))]) spawned))
   \<and> \<not> list_ex (\<lambda>ci. ci_id ci = 9 \<and> ci_ownerId ci = 2)
         (snap_chips (snd (last (broadcasts (tick board (still [(GroundBody, ChipBody (chipOf 1 2 9))]) spawned)))))"
proof -
  have k: "chips_keyed spawned" by code_simp
  have w: "winner spawned" by code_simp
  have b: "ChipBody (chipOf 1 2 9) \<in> set (world spawned)" by code_simp
  have m: "map_of (chips spawned) (combinedId_of 2 9) = Some (chipOf 1 2 9)" by code_simp
  have p: "(GroundBody, ChipBody (chipOf 1 2 9)) \<in> set [(GroundBody, ChipBody (chipOf 1 2 9))]"
    by simp
  have f: "chip_ownerId (chipOf 1 2 9) = 2" "chip_id (chipOf 1 2 9) = 9"
    by (simp_all add: chipOf_def)
  have e: "(still [])\<lparr>pairs := [(GroundBody, ChipBody (chipOf 1 2 9))]\<rparr>
             = still [(GroundBody, ChipBody (chipOf 1 2 9))]"
    by (simp add: still_def)
  from ground_contact_despawns [OF k p, of board "still []"] k w b m show ?thesis
    by (simp only: f e) simp
qed

section \<open>Stopping the game\<close>

lemma stopGame_no_handle: "loop s = None \<Longrightarrow> stopGame s = s"
  by (simp add: stopGame_def)

lemma startGame_reschedules:
  "immediates (startGame c now0 tr s) = immediates (tickLoop c tr (s\<lparr>nextTimestep :=
                  Some (case nextTimestep s of
                          Some t \<Rightarrow> if t \<noteq> 0 then t else now0
                        | None \<Rightarrow> now0)\<rparr>)) + 1"
  by (simp add: startGame_def Let_def)

text \<open>
  C3. When \<open>detectWinner\<close> finds a player at the target score, it latches the winner
  flag and stops the simulation: \<open>stopGame\<close> cancels the decay timer, so that the
  target score is no longer decremented, and the tick loop does not reschedule itself.

  The flag is latched, but nothing stops. \<open>stopGame\<close> calls \<open>clearInterval(this.loop)\<close>
  and no method assigns \<open>this.loop\<close>; the handle of the decay timer was dropped when
  the timer was started; and \<open>startGame\<close> ends with \<open>setImmediate\<close> whatever the
  flag. Player 1 wins in the first tick: afterwards the timer 0 is still live, its next
  firing takes the target score from 2 to 1, one callback of \<open>startGame\<close> is pending,
  and when it runs, the frame goes to 2 and the next callback is pending.
\<close>

theorem stop_does_not_stop:
  "winner won \<and> frame won = 1 \<and> loop won = None
   \<and> timers won = [0] \<and> timers (stopGame won) = [0]
   \<and> targetScore won = 2 \<and> targetScore (run board [IntervalFired 0] won) = 1
   \<and> immediates won = 1
   \<and> frame (run board [Immediate 120 [(121, still [])]] won) = 2
   \<and> immediates (run board [Immediate 120 [(121, still [])]] won) = 1"
  by code_simp

end
